theory Spec2Isabelle
  imports Main "HOL-Library.Word"
begin

unbundle bit_operations_syntax

section \<open>Bytes and machine integers\<close>

type_synonym byte = "8 word"
type_synonym uint32 = "32 word"
type_synonym uint64 = "64 word"

subsection \<open>encoding/binary, big endian\<close>

text \<open>
  \<^verbatim>\<open>binary.Write(buf, binary.BigEndian, offset)\<close> on a \<^verbatim>\<open>uint64\<close> appends
  \<^verbatim>\<open>byte(v >> 56), byte(v >> 48), ..., byte(v)\<close>.
\<close>

definition put_uint64 :: "uint64 \<Rightarrow> byte list" where
  "put_uint64 v =
     [ucast (drop_bit 56 v), ucast (drop_bit 48 v), ucast (drop_bit 40 v), ucast (drop_bit 32 v),
      ucast (drop_bit 24 v), ucast (drop_bit 16 v), ucast (drop_bit 8 v), ucast v]"

text \<open>
  \<^verbatim>\<open>binary.Read(r, binary.BigEndian, &storedOffset)\<close> on exactly eight bytes:
  \<^verbatim>\<open>uint64(b[7]) | uint64(b[6])<<8 | ... | uint64(b[0])<<56\<close>. The reader
  fails (unexpected EOF) when fewer than eight bytes are there.
\<close>

fun uint64_of_bytes :: "byte list \<Rightarrow> uint64 option" where
  "uint64_of_bytes [b0, b1, b2, b3, b4, b5, b6, b7] =
     Some (ucast b7 OR push_bit 8 (ucast b6) OR push_bit 16 (ucast b5) OR push_bit 24 (ucast b4)
           OR push_bit 32 (ucast b3) OR push_bit 40 (ucast b2) OR push_bit 48 (ucast b1)
           OR push_bit 56 (ucast b0))"
| "uint64_of_bytes _ = None"

text \<open>The number that a byte sequence denotes when read big endian.\<close>

definition be_value :: "byte list \<Rightarrow> nat" where
  "be_value bs = foldl (\<lambda>a b. 256 * a + unat b) 0 bs"

definition put_uint32 :: "uint32 \<Rightarrow> byte list" where
  "put_uint32 v = [ucast (drop_bit 24 v), ucast (drop_bit 16 v), ucast (drop_bit 8 v), ucast v]"

fun uint32_of_bytes :: "byte list \<Rightarrow> uint32" where
  "uint32_of_bytes [b0, b1, b2, b3] =
     ucast b3 OR push_bit 8 (ucast b2) OR push_bit 16 (ucast b1) OR push_bit 24 (ucast b0)"
| "uint32_of_bytes _ = 0"

section \<open>crypto/sha256\<close>

text \<open>
  \<^verbatim>\<open>sha256.Sum256\<close> belongs to Go's standard library. It is written out here after
  FIPS 180-4, so that the record layout can be evaluated on concrete inputs. The round
  constants \<open>K256\<close> are the first 32 bits of the fractional parts of the cube roots of the
  first 64 primes, the initial state those of the square roots of the first 8 primes.
\<close>

definition rotr :: "nat \<Rightarrow> uint32 \<Rightarrow> uint32" where
  "rotr n x = drop_bit n x OR push_bit (32 - n) x"

definition Ch :: "uint32 \<Rightarrow> uint32 \<Rightarrow> uint32 \<Rightarrow> uint32" where
  "Ch x y z = (x AND y) XOR (NOT x AND z)"

definition Maj :: "uint32 \<Rightarrow> uint32 \<Rightarrow> uint32 \<Rightarrow> uint32" where
  "Maj x y z = (x AND y) XOR (x AND z) XOR (y AND z)"

definition Sigma0 :: "uint32 \<Rightarrow> uint32" where
  "Sigma0 x = rotr 2 x XOR rotr 13 x XOR rotr 22 x"

definition Sigma1 :: "uint32 \<Rightarrow> uint32" where
  "Sigma1 x = rotr 6 x XOR rotr 11 x XOR rotr 25 x"

definition sigma0 :: "uint32 \<Rightarrow> uint32" where
  "sigma0 x = rotr 7 x XOR rotr 18 x XOR drop_bit 3 x"

definition sigma1 :: "uint32 \<Rightarrow> uint32" where
  "sigma1 x = rotr 17 x XOR rotr 19 x XOR drop_bit 10 x"

definition K256 :: "uint32 list" where
  "K256 =
    [1116352408, 1899447441, 3049323471, 3921009573, 961987163, 1508970993,
     2453635748, 2870763221, 3624381080, 310598401, 607225278, 1426881987,
     1925078388, 2162078206, 2614888103, 3248222580, 3835390401, 4022224774,
     264347078, 604807628, 770255983, 1249150122, 1555081692, 1996064986,
     2554220882, 2821834349, 2952996808, 3210313671, 3336571891, 3584528711,
     113926993, 338241895, 666307205, 773529912, 1294757372, 1396182291,
     1695183700, 1986661051, 2177026350, 2456956037, 2730485921, 2820302411,
     3259730800, 3345764771, 3516065817, 3600352804, 4094571909, 275423344,
     430227734, 506948616, 659060556, 883997877, 958139571, 1322822218,
     1537002063, 1747873779, 1955562222, 2024104815, 2227730452, 2361852424,
     2428436474, 2756734187, 3204031479, 3329325298]"

type_synonym digest_state =
  "uint32 \<times> uint32 \<times> uint32 \<times> uint32 \<times> uint32 \<times> uint32 \<times> uint32 \<times> uint32"

definition init256 :: digest_state where
  "init256 = (0x6a09e667, 0xbb67ae85, 0x3c6ef372, 0xa54ff53a,
              0x510e527f, 0x9b05688c, 0x1f83d9ab, 0x5be0cd19)"

text \<open>The padded message: a single 1 bit, zeros up to 56 mod 64, the bit length in 64 bits.\<close>

definition pad256 :: "byte list \<Rightarrow> byte list" where
  "pad256 msg =
     msg @ [0x80] @ replicate ((119 - length msg mod 64) mod 64) 0
         @ put_uint64 (of_nat (8 * length msg))"

function chunks :: "nat \<Rightarrow> 'a list \<Rightarrow> 'a list list" where
  "chunks n xs = (if n = 0 \<or> xs = [] then [] else take n xs # chunks n (drop n xs))"
  by pat_completeness auto
termination
  by (relation "measure (\<lambda>(n, xs). length xs)") auto

declare chunks.simps [simp del]

definition block_words :: "byte list \<Rightarrow> uint32 list" where
  "block_words blk = map (\<lambda>i. uint32_of_bytes (take 4 (drop (4 * i) blk))) [0..<16]"

fun schedule :: "nat \<Rightarrow> uint32 list \<Rightarrow> uint32 list" where
  "schedule 0 ws = ws"
| "schedule (Suc k) ws =
     (let t = length ws
      in schedule k (ws @ [sigma1 (ws ! (t - 2)) + ws ! (t - 7) + sigma0 (ws ! (t - 15)) + ws ! (t - 16)]))"

fun round256 :: "digest_state \<Rightarrow> uint32 \<times> uint32 \<Rightarrow> digest_state" where
  "round256 (a, b, c, d, e, f, g, h) (k, w) =
     (let t1 = h + Sigma1 e + Ch e f g + k + w;
          t2 = Sigma0 a + Maj a b c
      in (t1 + t2, a, b, c, d + t1, e, f, g))"

fun add_state :: "digest_state \<Rightarrow> digest_state \<Rightarrow> digest_state" where
  "add_state (a, b, c, d, e, f, g, h) (a', b', c', d', e', f', g', h') =
     (a + a', b + b', c + c', d + d', e + e', f + f', g + g', h + h')"

definition compress :: "digest_state \<Rightarrow> byte list \<Rightarrow> digest_state" where
  "compress st blk = add_state st (foldl round256 st (zip K256 (schedule 48 (block_words blk))))"

fun digest_bytes :: "digest_state \<Rightarrow> byte list" where
  "digest_bytes (a, b, c, d, e, f, g, h) =
     put_uint32 a @ put_uint32 b @ put_uint32 c @ put_uint32 d @
     put_uint32 e @ put_uint32 f @ put_uint32 g @ put_uint32 h"

definition Sum256 :: "byte list \<Rightarrow> byte list" where
  "Sum256 msg = digest_bytes (foldl compress init256 (chunks 64 (pad256 msg)))"

section \<open>strconv and fmt\<close>

datatype num_error = ErrSyntax | ErrRange

text \<open>\<^verbatim>\<open>lower(c)\<close> of strconv: \<^verbatim>\<open>c | ('x' - 'X')\<close>.\<close>

definition lower :: "nat \<Rightarrow> nat" where
  "lower c = c OR 32"

definition cutoff :: uint64 where
  "cutoff = 0xFFFFFFFFFFFFFFFF div 10 + 1"

definition maxVal :: uint64 where
  "maxVal = push_bit 64 1 - 1"

text \<open>
  The loop of \<^verbatim>\<open>strconv.ParseUint(s, 10, 64)\<close> over the bytes of \<^verbatim>\<open>s\<close>, with the
  accumulator \<^verbatim>\<open>n\<close>: a byte that is no digit of base 10 is a syntax error, a value
  that leaves 64 bits is a range error. No sign and no underscore is accepted in base 10.
\<close>

fun parse_loop :: "uint64 \<Rightarrow> string \<Rightarrow> num_error + uint64" where
  "parse_loop n [] = Inr n"
| "parse_loop n (ch # cs) =
     (let c = (of_char ch :: nat) in
      if \<not> ((48 \<le> c \<and> c \<le> 57) \<or> (97 \<le> lower c \<and> lower c \<le> 122)) then Inl ErrSyntax
      else
        let d = (if 48 \<le> c \<and> c \<le> 57 then c - 48 else lower c - 97 + 10) in
        if d \<ge> 10 then Inl ErrSyntax
        else if n \<ge> cutoff then Inl ErrRange
        else
          let n' = n * 10; n1 = n' + of_nat d in
          if n1 < n' \<or> n1 > maxVal then Inl ErrRange
          else parse_loop n1 cs)"

definition ParseUint :: "string \<Rightarrow> num_error + uint64" where
  "ParseUint s = (if s = [] then Inl ErrSyntax else parse_loop 0 s)"

text \<open>\<^verbatim>\<open>fmt.Sprintf("%020d", offset)\<close>: the decimal digits, padded with zeros to width 20.\<close>

fun decimal :: "nat \<Rightarrow> string" where
  "decimal n = (if n < 10 then [char_of (48 + n)] else decimal (n div 10) @ [char_of (48 + n mod 10)])"

declare decimal.simps [simp del]

definition Sprintf_020d :: "uint64 \<Rightarrow> string" where
  "Sprintf_020d v = (let s = decimal (unat v) in replicate (20 - length s) (CHR ''0'') @ s)"

section \<open>The storage collaborator\<close>

datatype s3_error = NoSuchKey | PreconditionFailed | ServiceError

record PutObjectInput =
  PutBucket :: string
  PutKey :: string
  PutBody :: "byte list"
  PutIfNoneMatch :: "string option"

record GetObjectInput =
  GetBucket :: string
  GetKey :: string

record ListObjectsV2Input =
  ListBucket :: string
  ListPrefix :: "string option"

text \<open>The body of a retrieved object is a stream; reading it to the end may fail.\<close>

datatype body = BodyBytes "byte list" | BodyBroken

text \<open>
  The driver reaches storage through three calls only. A client is any implementation of
  them over some storage state \<open>'s\<close>: a put returns the state after it, a get and a
  listing only read. The listing is the sequence of results of the paginator's
  \<^verbatim>\<open>NextPage\<close>, each page being the keys of its \<^verbatim>\<open>Contents\<close> or an error.
\<close>

record 's client =
  PutObject :: "'s \<Rightarrow> PutObjectInput \<Rightarrow> (s3_error + unit) \<times> 's"
  GetObject :: "'s \<Rightarrow> GetObjectInput \<Rightarrow> s3_error + body"
  ListObjectsV2Pages :: "'s \<Rightarrow> ListObjectsV2Input \<Rightarrow> (s3_error + string list) list"

subsection \<open>An in-memory bucket store\<close>

text \<open>
  Objects by bucket name and key. A put with \<^verbatim>\<open>If-None-Match: *\<close> fails when the key
  holds an object; a get of an absent key fails; a listing returns the keys of the bucket,
  those with the given prefix when one is given, in pages of at most 1000 keys.
\<close>

type_synonym mem_s3 = "((string \<times> string) \<times> byte list) list"

definition mem_PutObject :: "mem_s3 \<Rightarrow> PutObjectInput \<Rightarrow> (s3_error + unit) \<times> mem_s3" where
  "mem_PutObject s inp =
     (let k = (PutBucket inp, PutKey inp) in
      if PutIfNoneMatch inp = Some ''*'' \<and> map_of s k \<noteq> None then (Inl PreconditionFailed, s)
      else (Inr (), filter (\<lambda>kv. fst kv \<noteq> k) s @ [(k, PutBody inp)]))"

definition mem_GetObject :: "mem_s3 \<Rightarrow> GetObjectInput \<Rightarrow> s3_error + body" where
  "mem_GetObject s inp =
     (case map_of s (GetBucket inp, GetKey inp) of
        None \<Rightarrow> Inl NoSuchKey
      | Some b \<Rightarrow> Inr (BodyBytes b))"

definition mem_keys :: "mem_s3 \<Rightarrow> ListObjectsV2Input \<Rightarrow> string list" where
  "mem_keys s inp =
     filter (\<lambda>k. case ListPrefix inp of None \<Rightarrow> True | Some p \<Rightarrow> take (length p) k = p)
       (map (\<lambda>kv. snd (fst kv)) (filter (\<lambda>kv. fst (fst kv) = ListBucket inp) s))"

definition mem_ListObjectsV2Pages :: "mem_s3 \<Rightarrow> ListObjectsV2Input \<Rightarrow> (s3_error + string list) list" where
  "mem_ListObjectsV2Pages s inp =
     (case chunks 1000 (mem_keys s inp) of [] \<Rightarrow> [Inr []] | ps \<Rightarrow> map Inr ps)"

definition mem_client :: "mem_s3 client" where
  "mem_client = \<lparr>PutObject = mem_PutObject, GetObject = mem_GetObject,
                 ListObjectsV2Pages = mem_ListObjectsV2Pages\<rparr>"

section \<open>The log driver\<close>

text \<open>
  The struct \<^verbatim>\<open>S3WAL\<close>. Its \<^verbatim>\<open>client\<close> field is the client and storage state that
  every operation below takes as its first two arguments; the cursor field \<^verbatim>\<open>length\<close>
  is \<open>length_w\<close> here.
\<close>

record S3WAL =
  bucketName :: string
  prefix :: string
  length_w :: uint64

record Record =
  Offset :: uint64
  Data :: "byte list"

text \<open>A call either returns or panics (a slice bound out of range).\<close>

datatype 'a outcome = Panic | Return 'a

datatype write_error = WriteError

datatype offset_error = TooShortForOffset | FailedReadOffset

datatype error =
    FailedPrepareBody write_error
  | FailedPut s3_error
  | FailedGet s3_error
  | FailedReadBody
  | DataTooShort
  | OffsetMismatch "offset_error option"
  | ChecksumMismatch
  | FailedList s3_error
  | FailedParseKey num_error
  | WALEmpty

definition NewS3WAL :: "string \<Rightarrow> string \<Rightarrow> S3WAL" where
  "NewS3WAL bucket pfx = \<lparr>bucketName = bucket, prefix = pfx, length_w = 0\<rparr>"

definition getObjectKey :: "S3WAL \<Rightarrow> uint64 \<Rightarrow> string" where
  "getObjectKey w offset = prefix w @ ''/'' @ Sprintf_020d offset"

text \<open>\<^verbatim>\<open>key[len(w.prefix)+1:]\<close> panics when the bound exceeds the length of the key.\<close>

definition getOffsetFromKey :: "S3WAL \<Rightarrow> string \<Rightarrow> (num_error + uint64) outcome" where
  "getOffsetFromKey w key =
     (if length (prefix w) + 1 > length key then Panic
      else Return (ParseUint (drop (length (prefix w) + 1) key)))"

definition calculateChecksum :: "byte list \<Rightarrow> byte list" where
  "calculateChecksum buf = Sum256 buf"

text \<open>\<^verbatim>\<open>data[len(data)-32:]\<close> panics on fewer than 32 bytes.\<close>

definition validateChecksum :: "byte list \<Rightarrow> bool outcome" where
  "validateChecksum data =
     (if length data < 32 then Panic
      else
        let storedChecksum = drop (length data - 32) data;
            recordData = take (length data - 32) data
        in Return (storedChecksum = calculateChecksum recordData))"

text \<open>Writes to a \<^verbatim>\<open>bytes.Buffer\<close> return no error, so the error results are never taken.\<close>

definition prepareBody :: "uint64 \<Rightarrow> byte list \<Rightarrow> write_error + byte list" where
  "prepareBody offset data =
     (let buf = put_uint64 offset;
          buf = buf @ data;
          checksum = calculateChecksum buf
      in Inr (buf @ checksum))"

definition validateOffset :: "byte list \<Rightarrow> uint64 \<Rightarrow> bool \<times> offset_error option" where
  "validateOffset data offset =
     (if length data < 8 then (False, Some TooShortForOffset)
      else case uint64_of_bytes (take 8 data) of
             None \<Rightarrow> (False, Some FailedReadOffset)
           | Some storedOffset \<Rightarrow> (storedOffset = offset, None))"

definition Append :: "'s client \<Rightarrow> 's \<Rightarrow> S3WAL \<Rightarrow> byte list \<Rightarrow> (error + uint64) \<times> 's \<times> S3WAL" where
  "Append c s w data =
     (let nextOffset = length_w w + 1 in
      case prepareBody nextOffset data of
        Inl err \<Rightarrow> (Inl (FailedPrepareBody err), s, w)
      | Inr buf \<Rightarrow>
          (case PutObject c s \<lparr>PutBucket = bucketName w, PutKey = getObjectKey w nextOffset,
                                PutBody = buf, PutIfNoneMatch = Some ''*''\<rparr> of
             (Inl err, s') \<Rightarrow> (Inl (FailedPut err), s', w)
           | (Inr _, s') \<Rightarrow> (Inr nextOffset, s', w\<lparr>length_w := nextOffset\<rparr>)))"

definition Read :: "'s client \<Rightarrow> 's \<Rightarrow> S3WAL \<Rightarrow> uint64 \<Rightarrow> (error + Record) outcome \<times> S3WAL" where
  "Read c s w offset =
     (case GetObject c s \<lparr>GetBucket = bucketName w, GetKey = getObjectKey w offset\<rparr> of
        Inl err \<Rightarrow> (Return (Inl (FailedGet err)), w)
      | Inr BodyBroken \<Rightarrow> (Return (Inl FailedReadBody), w)
      | Inr (BodyBytes data) \<Rightarrow>
          (if length data < 40 then (Return (Inl DataTooShort), w)
           else (case validateOffset data offset of
             (ok, err) \<Rightarrow>
               (if \<not> ok then (Return (Inl (OffsetMismatch err)), w)
                else (case validateChecksum data of
                  Panic \<Rightarrow> (Panic, w)
                | Return valid \<Rightarrow>
                    (if \<not> valid then (Return (Inl ChecksumMismatch), w)
                     else (Return (Inr \<lparr>Offset = offset,
                                          Data = take (length data - 32 - 8) (drop 8 data)\<rparr>), w)))))))"

text \<open>The loop over \<^verbatim>\<open>output.Contents\<close> of one page, on the running \<^verbatim>\<open>maxOffset\<close>.\<close>

fun scan_keys :: "S3WAL \<Rightarrow> uint64 \<Rightarrow> string list \<Rightarrow> (error + uint64) outcome" where
  "scan_keys w maxOffset [] = Return (Inr maxOffset)"
| "scan_keys w maxOffset (key # keys) =
     (case getOffsetFromKey w key of
        Panic \<Rightarrow> Panic
      | Return (Inl err) \<Rightarrow> Return (Inl (FailedParseKey err))
      | Return (Inr offset) \<Rightarrow>
          scan_keys w (if offset > maxOffset then offset else maxOffset) keys)"

text \<open>The loop over the pages of the paginator.\<close>

fun scan_pages :: "S3WAL \<Rightarrow> uint64 \<Rightarrow> (s3_error + string list) list \<Rightarrow> (error + uint64) outcome" where
  "scan_pages w maxOffset [] = Return (Inr maxOffset)"
| "scan_pages w maxOffset (Inl err # pages) = Return (Inl (FailedList err))"
| "scan_pages w maxOffset (Inr contents # pages) =
     (case scan_keys w maxOffset contents of
        Panic \<Rightarrow> Panic
      | Return (Inl err) \<Rightarrow> Return (Inl err)
      | Return (Inr maxOffset') \<Rightarrow> scan_pages w maxOffset' pages)"

text \<open>The listing input carries the bucket only: no \<^verbatim>\<open>Prefix\<close> is set.\<close>

definition LastRecord :: "'s client \<Rightarrow> 's \<Rightarrow> S3WAL \<Rightarrow> (error + Record) outcome \<times> S3WAL" where
  "LastRecord c s w =
     (case scan_pages w 0 (ListObjectsV2Pages c s \<lparr>ListBucket = bucketName w, ListPrefix = None\<rparr>) of
        Panic \<Rightarrow> (Panic, w)
      | Return (Inl err) \<Rightarrow> (Return (Inl err), w)
      | Return (Inr maxOffset) \<Rightarrow>
          if maxOffset = 0 then (Return (Inl WALEmpty), w)
          else Read c s (w\<lparr>length_w := maxOffset\<rparr>) maxOffset)"

text \<open>
  Sequential calls of \<^verbatim>\<open>Append\<close> on one driver, as the loop of
  \<^verbatim>\<open>TestAppendMultiple\<close> makes them: each call runs on the storage and the driver
  that the call before it left.
\<close>

fun Appends :: "'s client \<Rightarrow> 's \<Rightarrow> S3WAL \<Rightarrow> byte list list \<Rightarrow> (error + uint64) list \<times> 's \<times> S3WAL" where
  "Appends c s w [] = ([], s, w)"
| "Appends c s w (d # ds) =
     (case Append c s w d of
        (r, s', w') \<Rightarrow> (case Appends c s' w' ds of (rs, s'', w'') \<Rightarrow> (r # rs, s'', w'')))"

text \<open>
  What "a string of decimal digits" and "the number it denotes" mean, to state the layout of
  a key independently of \<^verbatim>\<open>Sprintf\<close> and \<^verbatim>\<open>ParseUint\<close>.
\<close>

definition is_digit :: "char \<Rightarrow> bool" where
  "is_digit ch \<longleftrightarrow> 48 \<le> (of_char ch :: nat) \<and> (of_char ch :: nat) \<le> 57"

fun digits_value :: "string \<Rightarrow> nat" where
  "digits_value [] = 0"
| "digits_value (ch # cs) = (of_char ch - 48) * 10 ^ length cs + digits_value cs"

text \<open>
  Read-after-write consistency for a single key, which the design assumes of the storage:
  after a put that succeeded, a get of the same bucket and key returns the body that was put.
\<close>

definition read_after_write :: "'s client \<Rightarrow> bool" where
  "read_after_write c \<longleftrightarrow>
     (\<forall>s inp s'. PutObject c s inp = (Inr (), s') \<longrightarrow>
        GetObject c s' \<lparr>GetBucket = PutBucket inp, GetKey = PutKey inp\<rparr> = Inr (BodyBytes (PutBody inp)))"

section \<open>The record layout\<close>

lemma length_put_uint64: "length (put_uint64 v) = 8"
  by (simp add: put_uint64_def)

lemma length_put_uint32: "length (put_uint32 v) = 4"
  by (simp add: put_uint32_def)

lemma length_digest_bytes: "length (digest_bytes st) = 32"
  by (cases st rule: digest_bytes.cases) (simp add: length_put_uint32)

lemma length_Sum256: "length (Sum256 msg) = 32"
  by (simp add: Sum256_def length_digest_bytes)

text \<open>The digest of the three bytes \<open>abc\<close>, the first example of the standard.\<close>

lemma Sum256_abc:
  "Sum256 [0x61, 0x62, 0x63] =
     [0xba, 0x78, 0x16, 0xbf, 0x8f, 0x01, 0xcf, 0xea, 0x41, 0x41, 0x40, 0xde, 0x5d, 0xae, 0x22, 0x23,
      0xb0, 0x03, 0x61, 0xa3, 0x96, 0x17, 0x7a, 0x9c, 0xb4, 0x10, 0xff, 0x61, 0xf2, 0x00, 0x15, 0xad]"
  by code_simp

lemma uint64_of_bytes_put_uint64: "uint64_of_bytes (put_uint64 v) = Some v"
proof -
  have "ucast (ucast v :: byte) OR push_bit 8 (ucast (ucast (drop_bit 8 v) :: byte))
        OR push_bit 16 (ucast (ucast (drop_bit 16 v) :: byte))
        OR push_bit 24 (ucast (ucast (drop_bit 24 v) :: byte))
        OR push_bit 32 (ucast (ucast (drop_bit 32 v) :: byte))
        OR push_bit 40 (ucast (ucast (drop_bit 40 v) :: byte))
        OR push_bit 48 (ucast (ucast (drop_bit 48 v) :: byte))
        OR push_bit 56 (ucast (ucast (drop_bit 56 v) :: byte)) = v" (is "?l = v")
  proof (rule bit_word_eqI)
    fix n assume n: "n < LENGTH(64)"
    have b: "\<And>k. bit (push_bit k (ucast (ucast (drop_bit k v) :: byte) :: uint64)) n
               \<longleftrightarrow> k \<le> n \<and> n < k + 8 \<and> bit v n"
      using n by (auto simp add: bit_simps)
    have b0: "bit (ucast (ucast v :: byte) :: uint64) n \<longleftrightarrow> n < 8 \<and> bit v n"
      using n by (auto simp add: bit_simps)
    have "bit ?l n \<longleftrightarrow> (n < 64 \<and> bit v n)"
      unfolding bit_or_iff b b0 by arith
    then show "bit ?l n = bit v n" using n by simp
  qed
  then show ?thesis by (simp add: put_uint64_def)
qed

lemma unat_byte_of: "unat (ucast (drop_bit k (v :: uint64)) :: byte) = unat v div 2 ^ k mod 256"
proof -
  have "unat (ucast (drop_bit k v) :: byte) = take_bit 8 (drop_bit k (unat v))"
    by (simp add: unsigned_ucast_eq unat_drop_bit_eq)
  also have "\<dots> = unat v div 2 ^ k mod 256"
    by (simp add: take_bit_eq_mod drop_bit_eq_div)
  finally show ?thesis .
qed

lemma unat_byte_of0: "unat (ucast (v :: uint64) :: byte) = unat v mod 256"
  by (simp add: unsigned_ucast_eq take_bit_eq_mod)

lemma split_step: "(n::nat) div (a * 256) * 256 + n div a mod 256 = n div a"
  by (simp add: div_mult2_eq)

lemma be_value_put_uint64: "be_value (put_uint64 v) = unat v"
proof -
  define n where "n = unat v"
  have lt: "n < 2 ^ 64" unfolding n_def using unsigned_less [of v, where 'a = nat] by simp
  have s7: "n div 2 ^ 56 mod 256 = n div 2 ^ 56"
    using lt by (simp add: less_mult_imp_div_less)
  have s6: "n div 2 ^ 56 * 256 + n div 2 ^ 48 mod 256 = n div 2 ^ 48"
    using split_step [of n "2 ^ 48"] by simp
  have s5: "n div 2 ^ 48 * 256 + n div 2 ^ 40 mod 256 = n div 2 ^ 40"
    using split_step [of n "2 ^ 40"] by simp
  have s4: "n div 2 ^ 40 * 256 + n div 2 ^ 32 mod 256 = n div 2 ^ 32"
    using split_step [of n "2 ^ 32"] by simp
  have s3: "n div 2 ^ 32 * 256 + n div 2 ^ 24 mod 256 = n div 2 ^ 24"
    using split_step [of n "2 ^ 24"] by simp
  have s2: "n div 2 ^ 24 * 256 + n div 2 ^ 16 mod 256 = n div 2 ^ 16"
    using split_step [of n "2 ^ 16"] by simp
  have s1: "n div 2 ^ 16 * 256 + n div 2 ^ 8 mod 256 = n div 2 ^ 8"
    using split_step [of n "2 ^ 8"] by simp
  have s0: "n div 2 ^ 8 * 256 + n mod 256 = n"
    by simp
  have "be_value (put_uint64 v) =
     256 * (256 * (256 * (256 * (256 * (256 * (256 * (n div 2 ^ 56 mod 256) + n div 2 ^ 48 mod 256)
        + n div 2 ^ 40 mod 256) + n div 2 ^ 32 mod 256) + n div 2 ^ 24 mod 256)
        + n div 2 ^ 16 mod 256) + n div 2 ^ 8 mod 256) + n mod 256"
    unfolding be_value_def put_uint64_def n_def
    apply (simp only: foldl.simps unat_byte_of mult_0_right add_0_left)
    apply (simp only: unat_byte_of0)
    done
  also have "\<dots> = n"
    unfolding s7 
    apply (subst mult.commute [of 256 "n div 2 ^ 56"], subst s6)
    apply (subst mult.commute [of 256 "n div 2 ^ 48"], subst s5)
    apply (subst mult.commute [of 256 "n div 2 ^ 40"], subst s4)
    apply (subst mult.commute [of 256 "n div 2 ^ 32"], subst s3)
    apply (subst mult.commute [of 256 "n div 2 ^ 24"], subst s2)
    apply (subst mult.commute [of 256 "n div 2 ^ 16"], subst s1)
    apply (subst mult.commute [of 256 "n div 2 ^ 8"], subst s0)
    apply (rule refl)
    done
  finally show ?thesis by (simp add: n_def)
qed

lemma digit_div: "b < 256 \<Longrightarrow> (256 * a + b) div 256 = (a::nat)"
  by simp

lemma digit_mod: "b < 256 \<Longrightarrow> (256 * a + b) mod 256 = (b::nat)"
  by simp

lemma be_value_8:
  "be_value [b0, b1, b2, b3, b4, b5, b6, b7] =
     256 * (256 * (256 * (256 * (256 * (256 * (256 * unat b0 + unat b1) + unat b2) + unat b3)
       + unat b4) + unat b5) + unat b6) + unat b7"
  by (simp add: be_value_def)

lemma unat_byte_less: "unat (b :: byte) < 256"
  using unsigned_less [of b, where 'a = nat] by simp

lemma be_value_8_less: "be_value [b0, b1, b2, b3, b4, b5, b6, b7] < 2 ^ 64"
  unfolding be_value_8
  using unat_byte_less [of b0] unat_byte_less [of b1] unat_byte_less [of b2] unat_byte_less [of b3]
    unat_byte_less [of b4] unat_byte_less [of b5] unat_byte_less [of b6] unat_byte_less [of b7]
  by simp

lemma byte_eqI: "unat (x :: byte) = unat y \<Longrightarrow> x = y"
  by (simp add: word_unat_eq_iff)

lemma put_uint64_be_value:
  "put_uint64 (of_nat (be_value [b0, b1, b2, b3, b4, b5, b6, b7])) = [b0, b1, b2, b3, b4, b5, b6, b7]"
proof -
  define N where "N = be_value [b0, b1, b2, b3, b4, b5, b6, b7]"
  have u: "unat (of_nat N :: uint64) = N"
    using be_value_8_less [of b0 b1 b2 b3 b4 b5 b6 b7] by (simp add: N_def unat_of_nat)
  note l = unat_byte_less
  have d1: "N div 2 ^ 8 = 256 * (256 * (256 * (256 * (256 * (256 * unat b0 + unat b1) + unat b2) + unat b3)
       + unat b4) + unat b5) + unat b6"
    unfolding N_def be_value_8 using digit_div [OF l [of b7]] by simp
  have d2: "N div 2 ^ 16 = 256 * (256 * (256 * (256 * (256 * unat b0 + unat b1) + unat b2) + unat b3)
       + unat b4) + unat b5"
    using d1 digit_div [OF l [of b6]] div_mult2_eq [of N "2 ^ 8" 256] by simp
  have d3: "N div 2 ^ 24 = 256 * (256 * (256 * (256 * unat b0 + unat b1) + unat b2) + unat b3) + unat b4"
    using d2 digit_div [OF l [of b5]] div_mult2_eq [of N "2 ^ 16" 256] by simp
  have d4: "N div 2 ^ 32 = 256 * (256 * (256 * unat b0 + unat b1) + unat b2) + unat b3"
    using d3 digit_div [OF l [of b4]] div_mult2_eq [of N "2 ^ 24" 256] by simp
  have d5: "N div 2 ^ 40 = 256 * (256 * unat b0 + unat b1) + unat b2"
    using d4 digit_div [OF l [of b3]] div_mult2_eq [of N "2 ^ 32" 256] by simp
  have d6: "N div 2 ^ 48 = 256 * unat b0 + unat b1"
    using d5 digit_div [OF l [of b2]] div_mult2_eq [of N "2 ^ 40" 256] by simp
  have d7: "N div 2 ^ 56 = unat b0"
    using d6 digit_div [OF l [of b1]] div_mult2_eq [of N "2 ^ 48" 256] by simp
  have m0: "N mod 256 = unat b7"
    unfolding N_def be_value_8 by (rule digit_mod [OF l])
  have e7: "ucast (of_nat N :: uint64) = b7"
    by (rule byte_eqI) (simp only: unat_byte_of0 u m0)
  have e6: "ucast (drop_bit 8 (of_nat N :: uint64)) = b6"
    by (rule byte_eqI) (simp only: unat_byte_of u d1 digit_mod [OF l])
  have e5: "ucast (drop_bit 16 (of_nat N :: uint64)) = b5"
    by (rule byte_eqI) (simp only: unat_byte_of u d2 digit_mod [OF l])
  have e4: "ucast (drop_bit 24 (of_nat N :: uint64)) = b4"
    by (rule byte_eqI) (simp only: unat_byte_of u d3 digit_mod [OF l])
  have e3: "ucast (drop_bit 32 (of_nat N :: uint64)) = b3"
    by (rule byte_eqI) (simp only: unat_byte_of u d4 digit_mod [OF l])
  have e2: "ucast (drop_bit 40 (of_nat N :: uint64)) = b2"
    by (rule byte_eqI) (simp only: unat_byte_of u d5 digit_mod [OF l])
  have e1: "ucast (drop_bit 48 (of_nat N :: uint64)) = b1"
    by (rule byte_eqI) (simp only: unat_byte_of u d6 digit_mod [OF l])
  have e0: "ucast (drop_bit 56 (of_nat N :: uint64)) = b0"
    by (rule byte_eqI) (simp only: unat_byte_of u d7 mod_less [OF l])
  show ?thesis
    unfolding N_def [symmetric] put_uint64_def e0 e1 e2 e3 e4 e5 e6 e7 ..
qed

lemma uint64_of_bytes_be_value:
  assumes "length bs = 8"
  shows "\<exists>v. uint64_of_bytes bs = Some v \<and> unat v = be_value bs"
proof -
  from assms obtain b0 b1 b2 b3 b4 b5 b6 b7 where bs: "bs = [b0, b1, b2, b3, b4, b5, b6, b7]"
    by (auto simp add: length_Suc_conv numeral_eq_Suc)
  have "uint64_of_bytes (put_uint64 (of_nat (be_value bs))) = Some (of_nat (be_value bs))"
    by (rule uint64_of_bytes_put_uint64)
  then have "uint64_of_bytes bs = Some (of_nat (be_value bs))"
    unfolding bs put_uint64_be_value .
  moreover have "unat (of_nat (be_value bs) :: uint64) = be_value bs"
    unfolding bs using be_value_8_less [of b0 b1 b2 b3 b4 b5 b6 b7] by (simp add: unat_of_nat)
  ultimately show ?thesis by blast
qed

lemma prepareBody_eq:
  "prepareBody offset data = Inr (put_uint64 offset @ data @ Sum256 (put_uint64 offset @ data))"
  by (simp add: prepareBody_def calculateChecksum_def Let_def)

text \<open>
  C5. For every offset and data, \<^verbatim>\<open>prepareBody\<close> returns a body of exactly
  \<open>8 + len(data) + 32\<close> bytes: first the eight bytes of the offset, big endian (they
  denote the offset, and \<^verbatim>\<open>binary.Read\<close> gives it back), then the bytes of the data,
  then the 32 bytes of the SHA-256 digest of the \<open>8 + len(data)\<close> bytes before it.
\<close>

theorem prepareBody_layout:
  "\<exists>body. prepareBody offset data = Inr body
     \<and> length body = 8 + length data + 32
     \<and> take 8 body = put_uint64 offset
     \<and> be_value (take 8 body) = unat offset
     \<and> uint64_of_bytes (take 8 body) = Some offset
     \<and> take (length data) (drop 8 body) = data
     \<and> drop (8 + length data) body = calculateChecksum (take (8 + length data) body)
     \<and> calculateChecksum (take (8 + length data) body) = Sum256 (put_uint64 offset @ data)
     \<and> length (drop (8 + length data) body) = 32"
  by (simp add: prepareBody_eq calculateChecksum_def length_put_uint64 length_Sum256
      be_value_put_uint64 uint64_of_bytes_put_uint64)

section \<open>Reading and validating\<close>

lemma validateOffset_eq:
  "8 \<le> length b \<Longrightarrow> validateOffset b offset = (uint64_of_bytes (take 8 b) = Some offset, None)"
proof -
  assume "8 \<le> length b"
  define xs where "xs = take 8 b"
  with \<open>8 \<le> length b\<close> have "length xs = 8" by simp
  then obtain b0 b1 b2 b3 b4 b5 b6 b7 where "xs = [b0, b1, b2, b3, b4, b5, b6, b7]"
    by (auto simp add: length_Suc_conv numeral_eq_Suc)
  then have "take 8 b = [b0, b1, b2, b3, b4, b5, b6, b7]"
    by (simp add: xs_def)
  then have "\<exists>v. uint64_of_bytes (take 8 b) = Some v"
    by simp
  with \<open>8 \<le> length b\<close> show ?thesis
    by (auto simp add: validateOffset_def)
qed

lemma validateChecksum_eq:
  "32 \<le> length b \<Longrightarrow>
   validateChecksum b = Return (drop (length b - 32) b = Sum256 (take (length b - 32) b))"
  by (simp add: validateChecksum_def calculateChecksum_def Let_def)

lemma Read_body:
  assumes "GetObject c s \<lparr>GetBucket = bucketName w, GetKey = getObjectKey w offset\<rparr> = Inr (BodyBytes b)"
  shows "Read c s w offset =
     (if length b < 40 then Return (Inl DataTooShort)
      else if uint64_of_bytes (take 8 b) \<noteq> Some offset then Return (Inl (OffsetMismatch None))
      else if Sum256 (take (length b - 32) b) \<noteq> drop (length b - 32) b
        then Return (Inl ChecksumMismatch)
      else Return (Inr \<lparr>Offset = offset, Data = drop 8 (take (length b - 32) b)\<rparr>), w)"
proof (cases "length b < 40")
  case True
  with assms show ?thesis by (simp add: Read_def)
next
  case False
  then have l: "8 \<le> length b" "32 \<le> length b" by simp_all
  have d: "take (length b - 40) (drop 8 b) = drop 8 (take (length b - 32) b)"
    by (simp add: drop_take)
  from assms False show ?thesis
    by (auto simp add: Read_def validateOffset_eq [OF l(1)] validateChecksum_eq [OF l(2)] d)
qed

lemma Read_prepared:
  assumes "GetObject c s \<lparr>GetBucket = bucketName w, GetKey = getObjectKey w offset\<rparr>
             = Inr (BodyBytes (put_uint64 offset @ d @ Sum256 (put_uint64 offset @ d)))"
  shows "Read c s w offset = (Return (Inr \<lparr>Offset = offset, Data = d\<rparr>), w)"
  by (simp add: Read_body [OF assms] length_put_uint64 length_Sum256 uint64_of_bytes_put_uint64)

lemma offset_bytes_iff:
  assumes "8 \<le> length b"
  shows "uint64_of_bytes (take 8 b) = Some offset \<longleftrightarrow> be_value (take 8 b) = unat offset"
proof -
  from assms have "length (take 8 b) = 8" by simp
  from uint64_of_bytes_be_value [OF this] obtain v
    where v: "uint64_of_bytes (take 8 b) = Some v" "unat v = be_value (take 8 b)" by blast
  show ?thesis
    unfolding v(1) v(2) [symmetric] by (simp add: word_unat_eq_iff)
qed

lemma key5: "getObjectKey (NewS3WAL ''b'' ''p'') 5 = ''p/00000000000000000005''"
  by code_simp

lemma bump_neq: "length xs = 32 \<Longrightarrow> (xs :: byte list) \<noteq> map (\<lambda>b. b + 1) xs"
  by (cases xs) auto

text \<open>
  C6. On a retrieved body \<open>b\<close> and the expected offset, \<^verbatim>\<open>Read\<close> checks in this
  order: fewer than 40 bytes is the error "data too short"; else the first eight bytes, read
  as a big-endian unsigned integer, differing from the offset is the error "offset mismatch";
  else the digest of \<open>b[0 : len-32]\<close> differing from \<open>b[len-32 :]\<close> is the error
  "checksum mismatch"; else the record with the data \<open>b[8 : len-32]\<close> is returned.
\<close>

theorem Read_validation_order:
  assumes "GetObject c s \<lparr>GetBucket = bucketName w, GetKey = getObjectKey w offset\<rparr> = Inr (BodyBytes b)"
  shows "fst (Read c s w offset) =
     (if length b < 40 then Return (Inl DataTooShort)
      else if be_value (take 8 b) \<noteq> unat offset then Return (Inl (OffsetMismatch None))
      else if calculateChecksum (take (length b - 32) b) \<noteq> drop (length b - 32) b
        then Return (Inl ChecksumMismatch)
      else Return (Inr \<lparr>Offset = offset, Data = drop 8 (take (length b - 32) b)\<rparr>))"
proof (cases "length b < 40")
  case True
  then show ?thesis by (simp add: Read_body [OF assms])
next
  case False
  then have "8 \<le> length b" by simp
  from offset_bytes_iff [OF this] False show ?thesis
    by (simp add: Read_body [OF assms] calculateChecksum_def)
qed

theorem Read_validation_order_witness:
  "fst (Read mem_client [((''b'', ''p/00000000000000000005''), replicate 39 0)] (NewS3WAL ''b'' ''p'') 5)
     = Return (Inl DataTooShort)
   \<and> fst (Read mem_client [((''b'', ''p/00000000000000000005''), replicate 40 0)] (NewS3WAL ''b'' ''p'') 5)
     = Return (Inl (OffsetMismatch None))
   \<and> fst (Read mem_client [((''b'', ''p/00000000000000000005''),
             put_uint64 5 @ [1, 2, 3] @ map (\<lambda>b. b + 1) (Sum256 (put_uint64 5 @ [1, 2, 3])))]
          (NewS3WAL ''b'' ''p'') 5)
     = Return (Inl ChecksumMismatch)
   \<and> fst (Read mem_client [((''b'', ''p/00000000000000000005''),
             put_uint64 5 @ [1, 2, 3] @ Sum256 (put_uint64 5 @ [1, 2, 3]))]
          (NewS3WAL ''b'' ''p'') 5)
     = Return (Inr \<lparr>Offset = 5, Data = [1, 2, 3]\<rparr>)"
proof -
  have g: "\<And>b. GetObject mem_client [((''b'', ''p/00000000000000000005''), b)]
             \<lparr>GetBucket = bucketName (NewS3WAL ''b'' ''p''), GetKey = getObjectKey (NewS3WAL ''b'' ''p'') 5\<rparr>
           = Inr (BodyBytes b)"
    by (simp add: key5 mem_client_def mem_GetObject_def) (simp add: NewS3WAL_def)
  have v0: "be_value (replicate 8 0) = 0"
    by code_simp
  show ?thesis
    using Read_validation_order [OF g [of "replicate 39 0"]]
      Read_validation_order [OF g [of "replicate 40 0"]]
      Read_validation_order [OF g [of "put_uint64 5 @ [1, 2, 3] @ map (\<lambda>b. b + 1) (Sum256 (put_uint64 5 @ [1, 2, 3]))"]]
      Read_validation_order [OF g [of "put_uint64 5 @ [1, 2, 3] @ Sum256 (put_uint64 5 @ [1, 2, 3])"]]
    by (simp add: v0 length_put_uint64 length_Sum256 be_value_put_uint64 calculateChecksum_def
        bump_neq [OF length_Sum256])
qed

section \<open>Round trip\<close>

lemma map_of_put: "map_of (filter (\<lambda>kv. fst kv \<noteq> k) s @ [(k, v)]) k = Some v"
proof -
  have "map_of (filter (\<lambda>kv. fst kv \<noteq> k) s) k = None"
    by (auto simp add: map_of_eq_None_iff)
  then show ?thesis
    by (simp add: map_add_def)
qed

lemma mem_read_after_write: "read_after_write mem_client"
  unfolding read_after_write_def
  by (auto simp add: mem_client_def mem_PutObject_def mem_GetObject_def Let_def map_of_put
      simp del: map_of_append split: if_splits)

lemma Append_success:
  assumes "Append c s w d = (Inr k, s', w')"
  shows "k = length_w w + 1 \<and> w' = w\<lparr>length_w := k\<rparr>
     \<and> PutObject c s \<lparr>PutBucket = bucketName w, PutKey = getObjectKey w k,
           PutBody = put_uint64 k @ d @ Sum256 (put_uint64 k @ d), PutIfNoneMatch = Some ''*''\<rparr> = (Inr (), s')"
  using assms
  by (auto simp add: Append_def prepareBody_eq Let_def split: prod.splits sum.splits)

lemma getObjectKey_cursor: "getObjectKey (w\<lparr>length_w := k\<rparr>) offset = getObjectKey w offset"
  by (simp add: getObjectKey_def)

lemma key1: "getObjectKey (NewS3WAL ''b'' ''p'') 1 = ''p/00000000000000000001''"
  by code_simp

text \<open>
  C3. Round-trip integrity. For every 64-bit offset and every data, also empty, the body that
  \<^verbatim>\<open>prepareBody\<close> makes passes the validation of \<^verbatim>\<open>Read\<close> at that offset, which
  returns exactly the data; and on a storage with read-after-write consistency, reading at
  the offset that a successful \<^verbatim>\<open>Append\<close> of the data returned gives back that data.
\<close>

theorem round_trip:
  "(\<exists>body. prepareBody offset d = Inr body \<and>
      (GetObject c s \<lparr>GetBucket = bucketName w, GetKey = getObjectKey w offset\<rparr> = Inr (BodyBytes body)
         \<longrightarrow> Read c s w offset = (Return (Inr \<lparr>Offset = offset, Data = d\<rparr>), w)))
   \<and> (read_after_write c \<and> Append c s w d = (Inr k, s', w')
         \<longrightarrow> Read c s' w' k = (Return (Inr \<lparr>Offset = k, Data = d\<rparr>), w'))"
proof (intro conjI impI)
  show "\<exists>body. prepareBody offset d = Inr body \<and>
      (GetObject c s \<lparr>GetBucket = bucketName w, GetKey = getObjectKey w offset\<rparr> = Inr (BodyBytes body)
         \<longrightarrow> Read c s w offset = (Return (Inr \<lparr>Offset = offset, Data = d\<rparr>), w))"
    by (simp add: prepareBody_eq Read_prepared)
next
  assume a: "read_after_write c \<and> Append c s w d = (Inr k, s', w')"
  then have "Append c s w d = (Inr k, s', w')" ..
  from Append_success [OF this]
  have w': "w' = w\<lparr>length_w := k\<rparr>"
    and put: "PutObject c s \<lparr>PutBucket = bucketName w, PutKey = getObjectKey w k,
           PutBody = put_uint64 k @ d @ Sum256 (put_uint64 k @ d), PutIfNoneMatch = Some ''*''\<rparr> = (Inr (), s')"
    by blast+
  from a put have "GetObject c s' \<lparr>GetBucket = bucketName w, GetKey = getObjectKey w k\<rparr>
      = Inr (BodyBytes (put_uint64 k @ d @ Sum256 (put_uint64 k @ d)))"
    unfolding read_after_write_def by fastforce
  then have "GetObject c s' \<lparr>GetBucket = bucketName w', GetKey = getObjectKey w' k\<rparr>
      = Inr (BodyBytes (put_uint64 k @ d @ Sum256 (put_uint64 k @ d)))"
    by (simp add: w' getObjectKey_cursor)
  then show "Read c s' w' k = (Return (Inr \<lparr>Offset = k, Data = d\<rparr>), w')"
    by (rule Read_prepared)
qed

theorem round_trip_witness:
  "Read mem_client
      [((''b'', ''p/00000000000000000001''), put_uint64 1 @ [1, 2, 3] @ Sum256 (put_uint64 1 @ [1, 2, 3]))]
      (NewS3WAL ''b'' ''p'') 1
     = (Return (Inr \<lparr>Offset = 1, Data = [1, 2, 3]\<rparr>), NewS3WAL ''b'' ''p'')
   \<and> fst (Append mem_client [] (NewS3WAL ''b'' ''p'') [1, 2, 3]) = Inr 1
   \<and> Read mem_client (fst (snd (Append mem_client [] (NewS3WAL ''b'' ''p'') [1, 2, 3])))
        (snd (snd (Append mem_client [] (NewS3WAL ''b'' ''p'') [1, 2, 3]))) 1
     = (Return (Inr \<lparr>Offset = 1, Data = [1, 2, 3]\<rparr>),
        snd (snd (Append mem_client [] (NewS3WAL ''b'' ''p'') [1, 2, 3])))"
proof -
  let ?W = "NewS3WAL ''b'' ''p''"
  let ?B = "put_uint64 1 @ [1, 2, 3] @ Sum256 (put_uint64 1 @ [1, 2, 3])"
  let ?S = "[((''b'', ''p/00000000000000000001''), ?B)]"
  let ?A = "Append mem_client [] ?W [1, 2, 3]"
  have g: "GetObject mem_client ?S \<lparr>GetBucket = bucketName ?W, GetKey = getObjectKey ?W 1\<rparr>
           = Inr (BodyBytes ?B)"
    by (simp add: key1 mem_client_def mem_GetObject_def) (simp add: NewS3WAL_def)
  have a: "?A = (Inr 1, fst (snd ?A), snd (snd ?A))"
    by (simp add: Append_def prepareBody_eq mem_client_def mem_PutObject_def Let_def NewS3WAL_def)
  from round_trip [of 1 "[1, 2, 3]" mem_client ?S ?W 1 "fst (snd ?A)" "snd (snd ?A)"]
  have 1: "Read mem_client ?S ?W 1 = (Return (Inr \<lparr>Offset = 1, Data = [1, 2, 3]\<rparr>), ?W)"
    using g by (simp add: prepareBody_eq)
  from round_trip [of 1 "[1, 2, 3]" mem_client "[]" ?W 1 "fst (snd ?A)" "snd (snd ?A)"]
  have 2: "Read mem_client (fst (snd ?A)) (snd (snd ?A)) 1
     = (Return (Inr \<lparr>Offset = 1, Data = [1, 2, 3]\<rparr>), snd (snd ?A))"
    using a mem_read_after_write by blast
  from a have 3: "fst ?A = Inr 1" by (metis fst_conv)
  from 1 2 3 show ?thesis by blast
qed

section \<open>The key mapping\<close>

lemma unat_cutoff: "unat cutoff = 1844674407370955162"
  by (simp add: cutoff_def)

lemma unat_less_64: "unat (n :: uint64) < 18446744073709551616"
  using unsigned_less [of n, where 'a = nat] by simp

lemma maxVal_max: "\<not> (n :: uint64) > maxVal"
  using unat_less_64 [of n] by (simp add: maxVal_def word_less_nat_alt)

lemma unat_of_nat_64: "m < 18446744073709551616 \<Longrightarrow> unat (of_nat m :: uint64) = m"
  by (simp add: unat_of_nat)

lemma parse_loop_digit:
  assumes "is_digit ch" and "unat n * 10 + (of_char ch - 48) < 18446744073709551616"
  shows "parse_loop n (ch # cs) = parse_loop (of_nat (unat n * 10 + (of_char ch - 48))) cs"
proof -
  define d where "d = (of_char ch :: nat) - 48"
  from assms(1) have c: "48 \<le> (of_char ch :: nat)" "(of_char ch :: nat) \<le> 57"
    by (simp_all add: is_digit_def)
  then have d: "d < 10" by (simp add: d_def)
  from assms(2) have b: "unat n * 10 + d < 18446744073709551616" by (simp add: d_def)
  then have "unat n < 1844674407370955162" by simp
  then have lt: "\<not> n \<ge> cutoff" by (simp add: word_le_nat_alt unat_cutoff)
  have m: "unat (n * 10) = unat n * 10"
    using b by (simp add: unat_word_ariths)
  have ud: "unat (of_nat d :: uint64) = d"
    using d by (simp add: unat_of_nat)
  have a: "unat (n * 10 + of_nat d) = unat n * 10 + d"
    using b m ud by (simp add: unat_word_ariths)
  have nlt: "\<not> n * 10 + of_nat d < n * 10"
    by (simp add: word_less_nat_alt a m)
  have e: "n * 10 + of_nat d = (of_nat (unat n * 10 + d) :: uint64)"
    by simp
  show ?thesis
    using c d lt nlt maxVal_max [of "n * 10 + of_nat d"]
    by (simp add: Let_def d_def [symmetric] e [symmetric])
qed

lemma parse_loop_digits:
  assumes "list_all is_digit s" and "unat n * 10 ^ length s + digits_value s < 18446744073709551616"
  shows "parse_loop n s = Inr (of_nat (unat n * 10 ^ length s + digits_value s))"
  using assms
proof (induction s arbitrary: n)
  case Nil
  then show ?case by simp
next
  case (Cons ch cs)
  define d where "d = (of_char ch :: nat) - 48"
  from Cons.prems have dig: "is_digit ch" "list_all is_digit cs" by simp_all
  from Cons.prems(2)
  have b: "(unat n * 10 + d) * 10 ^ length cs + digits_value cs < 18446744073709551616"
    by (simp add: d_def algebra_simps)
  have "unat n * 10 + d \<le> (unat n * 10 + d) * 10 ^ length cs" by simp
  with b have s: "unat n * 10 + d < 18446744073709551616" by linarith
  then have u: "unat (of_nat (unat n * 10 + d) :: uint64) = unat n * 10 + d"
    by (rule unat_of_nat_64)
  have "parse_loop n (ch # cs) = parse_loop (of_nat (unat n * 10 + d)) cs"
    unfolding d_def using dig(1) s [unfolded d_def] by (rule parse_loop_digit)
  also have "\<dots> = Inr (of_nat ((unat n * 10 + d) * 10 ^ length cs + digits_value cs))"
    using Cons.IH [of "of_nat (unat n * 10 + d)"] dig(2) b by (simp only: u)
  also have "(unat n * 10 + d) * 10 ^ length cs + digits_value cs
      = unat n * 10 ^ length (ch # cs) + digits_value (ch # cs)"
    by (simp add: d_def algebra_simps)
  finally show ?case .
qed

lemma digits_value_append:
  "digits_value (xs @ ys) = digits_value xs * 10 ^ length ys + digits_value ys"
  by (induction xs) (simp_all add: algebra_simps power_add)

lemma digit_char: "d < 10 \<Longrightarrow> (of_char (char_of (48 + d :: nat)) :: nat) = 48 + d"
  by simp

lemma decimal_digits: "list_all is_digit (decimal n)"
proof (induction n rule: decimal.induct)
  case (1 n)
  show ?case
  proof (cases "n < 10")
    case True
    then show ?thesis by (subst decimal.simps) (simp add: is_digit_def)
  next
    case False
    have "n mod 10 < 10" by simp
    then have "is_digit (char_of (48 + n mod 10))"
      unfolding is_digit_def by (simp only: digit_char) simp
    with False 1 show ?thesis by (subst decimal.simps) simp
  qed
qed

lemma decimal_value: "digits_value (decimal n) = n"
proof (induction n rule: decimal.induct)
  case (1 n)
  show ?case
  proof (cases "n < 10")
    case True
    then show ?thesis by (subst decimal.simps) simp
  next
    case False
    have "n mod 10 < 10" by simp
    then have "digits_value [char_of (48 + n mod 10)] = n mod 10"
      by (simp only: digits_value.simps digit_char) simp
    with False 1 show ?thesis
      by (subst decimal.simps) (simp add: digits_value_append)
  qed
qed

lemma decimal_length: "n < 10 ^ Suc k \<Longrightarrow> length (decimal n) \<le> Suc k"
proof (induction k arbitrary: n)
  case 0
  then show ?case by (subst decimal.simps) simp
next
  case (Suc k)
  show ?case
  proof (cases "n < 10")
    case True
    then show ?thesis by (subst decimal.simps) simp
  next
    case False
    from Suc.prems have "n div 10 < 10 ^ Suc k" by (simp add: less_mult_imp_div_less)
    from Suc.IH [OF this] False show ?thesis by (subst decimal.simps) simp
  qed
qed

lemma decimal_nonempty: "decimal n \<noteq> []"
  by (subst decimal.simps) simp

lemma digits_value_zeros: "digits_value (replicate k (CHR ''0'') @ s) = digits_value s"
  by (induction k) simp_all

lemma zeros_digits: "list_all is_digit (replicate k (CHR ''0''))"
  by (induction k) (simp_all add: is_digit_def)

lemma Sprintf_020d_props:
  "length (Sprintf_020d v) = 20 \<and> list_all is_digit (Sprintf_020d v)
     \<and> digits_value (Sprintf_020d v) = unat v"
proof -
  have "unat v < 10 ^ Suc 19" using unat_less_64 [of v] by simp
  then have "length (decimal (unat v)) \<le> 20" using decimal_length [of "unat v" 19] by simp
  then show ?thesis
    by (simp add: Sprintf_020d_def Let_def decimal_digits decimal_value digits_value_zeros
        zeros_digits)
qed

lemma ParseUint_Sprintf: "ParseUint (Sprintf_020d v) = Inr v"
proof -
  let ?s = "Sprintf_020d v"
  from Sprintf_020d_props [of v]
  have l: "length ?s = 20" and d: "list_all is_digit ?s" and v: "digits_value ?s = unat v"
    by simp_all
  from l have ne: "?s \<noteq> []" by auto
  have "unat (0 :: uint64) * 10 ^ length ?s + digits_value ?s < 18446744073709551616"
    using unat_less_64 [of v] by (simp add: v)
  from parse_loop_digits [OF d this] have "parse_loop 0 ?s = Inr v"
    by (simp add: v)
  with ne show ?thesis by (simp add: ParseUint_def)
qed

lemma getOffsetFromKey_getObjectKey: "getOffsetFromKey w (getObjectKey w offset) = Return (Inr offset)"
  by (simp add: getOffsetFromKey_def getObjectKey_def ParseUint_Sprintf)

lemma getObjectKey_inj: "getObjectKey w a = getObjectKey w b \<longleftrightarrow> a = b"
proof
  assume "getObjectKey w a = getObjectKey w b"
  then have "getOffsetFromKey w (getObjectKey w a) = getOffsetFromKey w (getObjectKey w b)"
    by simp
  then show "a = b" by (simp add: getOffsetFromKey_getObjectKey)
qed simp

lemma key_orders1: "getObjectKey (NewS3WAL ''b'' ''orders'') 1 = ''orders/00000000000000000001''"
  by code_simp

lemma parse7: "ParseUint ''7'' = Inr 7"
  by code_simp

text \<open>
  C7. The key mapping is a bijection on the offsets: every offset is a 64-bit value, hence
  below \<open>10^20\<close>; its key is the prefix, a slash and exactly 20 decimal digits that denote
  the offset; decoding the key gives the offset back; and two offsets have the same key only
  when they are equal.
\<close>

theorem key_bijection:
  "unat offset < 10 ^ 20
   \<and> (\<exists>s. getObjectKey w offset = prefix w @ ''/'' @ s \<and> length s = 20 \<and> list_all is_digit s
          \<and> digits_value s = unat offset)
   \<and> getOffsetFromKey w (getObjectKey w offset) = Return (Inr offset)
   \<and> (getObjectKey w offset = getObjectKey w offset' \<longleftrightarrow> offset = offset')"
proof -
  have "unat offset < 10 ^ 20" using unat_less_64 [of offset] by simp
  moreover have "\<exists>s. getObjectKey w offset = prefix w @ ''/'' @ s \<and> length s = 20
      \<and> list_all is_digit s \<and> digits_value s = unat offset"
    using Sprintf_020d_props [of offset] by (simp add: getObjectKey_def)
  ultimately show ?thesis
    by (simp add: getOffsetFromKey_getObjectKey getObjectKey_inj)
qed

theorem key_bijection_witness:
  "getObjectKey (NewS3WAL ''b'' ''orders'') 1 = ''orders/00000000000000000001''
   \<and> getOffsetFromKey (NewS3WAL ''b'' ''orders'') ''orders/00000000000000000001'' = Return (Inr 1)
   \<and> getObjectKey (NewS3WAL ''b'' ''orders'') 1 \<noteq> getObjectKey (NewS3WAL ''b'' ''orders'') 2"
  using key_bijection [of 1 "NewS3WAL ''b'' ''orders''" 2] by (simp add: key_orders1)

text \<open>
  C9. \<^verbatim>\<open>getOffsetFromKey\<close> is not total: on every key of length at most
  \<open>len(prefix)\<close> the slice \<open>key[len(prefix)+1:]\<close> is out of bounds and the call panics, the
  prefix itself being such a key; so it returns at all, and with it the parse error, only on
  keys of length at least \<open>len(prefix)+1\<close>, where the result is that of
  \<^verbatim>\<open>ParseUint\<close> on the rest.
\<close>

theorem getOffsetFromKey_panic:
  "(length key \<le> length (prefix w) \<longrightarrow> getOffsetFromKey w key = Panic)
   \<and> (\<forall>r. getOffsetFromKey w key = Return r \<longrightarrow>
         length (prefix w) + 1 \<le> length key \<and> r = ParseUint (drop (length (prefix w) + 1) key))
   \<and> getOffsetFromKey w (prefix w) = Panic"
  by (simp add: getOffsetFromKey_def)

theorem getOffsetFromKey_panic_witness:
  "getOffsetFromKey (NewS3WAL ''b'' ''orders'') ''order'' = Panic
   \<and> getOffsetFromKey (NewS3WAL ''b'' ''orders'') ''orders'' = Panic
   \<and> getOffsetFromKey (NewS3WAL ''b'' ''orders'') ''orders/'' = Return (Inl ErrSyntax)
   \<and> getOffsetFromKey (NewS3WAL ''b'' ''orders'') ''orders/x'' = Return (Inl ErrSyntax)"
proof -
  let ?W = "NewS3WAL ''b'' ''orders''"
  have p: "prefix ?W = ''orders''" by (simp add: NewS3WAL_def)
  have 1: "getOffsetFromKey ?W ''order'' = Panic"
    using getOffsetFromKey_panic [of "''order''" ?W] by (simp add: p)
  have 2: "getOffsetFromKey ?W ''orders'' = Panic"
    using getOffsetFromKey_panic [of "''orders''" ?W] by (simp add: p)
  have r3: "getOffsetFromKey ?W ''orders/'' = Return (Inl ErrSyntax)" by code_simp
  have r4: "getOffsetFromKey ?W ''orders/x'' = Return (Inl ErrSyntax)" by code_simp
  from 1 2 r3 r4 show ?thesis by simp
qed

text \<open>
  C10. \<^verbatim>\<open>getOffsetFromKey\<close> never looks at the first \<open>len(prefix)+1\<close> characters of the
  key: whatever they are, the result is that of \<^verbatim>\<open>ParseUint\<close> on the rest. So there is a
  key that does not begin with the prefix and a slash on which it returns an offset and no
  error.
\<close>

theorem getOffsetFromKey_ignores_prefix:
  "(length junk = length (prefix w) + 1 \<longrightarrow> getOffsetFromKey w (junk @ rest) = Return (ParseUint rest))
   \<and> (\<exists>key offset. take (length (prefix w) + 1) key \<noteq> prefix w @ ''/''
         \<and> getOffsetFromKey w key = Return (Inr offset))"
proof
  show "length junk = length (prefix w) + 1 \<longrightarrow> getOffsetFromKey w (junk @ rest) = Return (ParseUint rest)"
    by (simp add: getOffsetFromKey_def)
next
  let ?key = "replicate (length (prefix w) + 1) (CHR ''X'') @ Sprintf_020d 7"
  have "take (length (prefix w) + 1) ?key \<noteq> prefix w @ ''/''"
  proof
    assume "take (length (prefix w) + 1) ?key = prefix w @ ''/''"
    then have "replicate (length (prefix w) + 1) (CHR ''X'') = prefix w @ ''/''" by simp
    then have "CHR ''/'' \<in> set (replicate (length (prefix w) + 1) (CHR ''X''))"
      by (simp only: set_append) simp
    then show False by simp
  qed
  moreover have "getOffsetFromKey w ?key = Return (Inr 7)"
    by (simp add: getOffsetFromKey_def ParseUint_Sprintf)
  ultimately show "\<exists>key offset. take (length (prefix w) + 1) key \<noteq> prefix w @ ''/''
         \<and> getOffsetFromKey w key = Return (Inr offset)" by blast
qed

theorem getOffsetFromKey_ignores_prefix_witness:
  "getOffsetFromKey (NewS3WAL ''b'' ''orders'') ''XXXXXXX7'' = Return (Inr 7)
   \<and> getOffsetFromKey (NewS3WAL ''b'' ''orders'') ''invoice7'' = Return (Inr 7)"
  using getOffsetFromKey_ignores_prefix [of "''XXXXXXX''" "NewS3WAL ''b'' ''orders''" "''7''"]
    getOffsetFromKey_ignores_prefix [of "''invoice''" "NewS3WAL ''b'' ''orders''" "''7''"]
  by (simp add: NewS3WAL_def parse7)

section \<open>Append and the cursor\<close>

lemma NewS3WAL_sel:
  "bucketName (NewS3WAL b p) = b" "prefix (NewS3WAL b p) = p" "length_w (NewS3WAL b p) = 0"
  by (simp_all add: NewS3WAL_def)

lemma Append_cases:
  "(\<exists>e s'. Append c s w d = (Inl e, s', w))
   \<or> (\<exists>s'. Append c s w d = (Inr (length_w w + 1), s', w\<lparr>length_w := length_w w + 1\<rparr>))"
proof (cases "PutObject c s \<lparr>PutBucket = bucketName w, PutKey = getObjectKey w (length_w w + 1),
          PutBody = put_uint64 (length_w w + 1) @ d @ Sum256 (put_uint64 (length_w w + 1) @ d),
          PutIfNoneMatch = Some ''*''\<rparr>")
  case (Pair r s')
  then show ?thesis
    by (cases r) (simp_all add: Append_def prepareBody_eq Let_def)
qed

lemma Appends_offsets:
  assumes "Appends c s w ds = (rs, s', w')" and "list_all (\<lambda>r. \<not> isl r) rs"
  shows "rs = map (\<lambda>i. Inr (length_w w + of_nat i)) [1..<Suc (length ds)]
     \<and> length_w w' = length_w w + of_nat (length ds)"
  using assms
proof (induction ds arbitrary: s w rs s' w')
  case Nil
  then show ?case by simp
next
  case (Cons d ds)
  obtain r s1 w1 where a: "Append c s w d = (r, s1, w1)" by (cases "Append c s w d") auto
  obtain rs' s2 w2 where b: "Appends c s1 w1 ds = (rs', s2, w2)" by (cases "Appends c s1 w1 ds") auto
  from Cons.prems(1) a b have rs: "rs = r # rs'" and w': "w' = w2" by simp_all
  from Cons.prems(2) rs have ok: "\<not> isl r" "list_all (\<lambda>r. \<not> isl r) rs'" by simp_all
  from Append_cases [of c s w d] a ok(1)
  have r: "r = Inr (length_w w + 1)" and w1: "w1 = w\<lparr>length_w := length_w w + 1\<rparr>"
    by auto
  from Cons.IH [OF b ok(2)]
  have ih: "rs' = map (\<lambda>i. Inr (length_w w1 + of_nat i)) [1..<Suc (length ds)]"
    "length_w w2 = length_w w1 + of_nat (length ds)" by simp_all
  have "map (\<lambda>i. Inr (length_w w + of_nat i) :: error + uint64) [1..<Suc (length (d # ds))]
      = Inr (length_w w + 1) # map (\<lambda>i. Inr (length_w w + of_nat i)) (map Suc [1..<Suc (length ds)])"
    by (simp add: upt_conv_Cons map_Suc_upt del: upt_Suc)
  also have "\<dots> = r # rs'"
    by (simp add: r ih(1) w1 add.assoc del: upt_Suc)
  finally show ?case
    by (simp add: rs w' ih(2) w1 del: upt_Suc)
qed

lemma mem_put_fresh:
  "map_of s (b, k) = None \<Longrightarrow>
   PutObject mem_client s \<lparr>PutBucket = b, PutKey = k, PutBody = body, PutIfNoneMatch = Some ''*''\<rparr>
     = (Inr (), filter (\<lambda>kv. fst kv \<noteq> (b, k)) s @ [((b, k), body)])"
  by (simp add: mem_client_def mem_PutObject_def Let_def)

lemma Sprintf_020d_inj: "Sprintf_020d a = Sprintf_020d b \<longleftrightarrow> a = b"
proof
  assume "Sprintf_020d a = Sprintf_020d b"
  then have "ParseUint (Sprintf_020d a) = ParseUint (Sprintf_020d b)" by simp
  then show "a = b" by (simp add: ParseUint_Sprintf)
qed simp

lemma map_of_put_other:
  "k' \<noteq> k \<Longrightarrow> map_of (filter (\<lambda>kv. fst kv \<noteq> k) s @ [(k, v)]) k' = map_of s k'"
proof -
  assume n: "k' \<noteq> k"
  have "map_of (filter (\<lambda>kv. fst kv \<noteq> k) s) k' = map_of s k'"
    using n by (induction s) auto
  with n show ?thesis by (auto simp add: map_add_def split: option.splits)
qed

lemma mem_Append_fresh:
  assumes "map_of s (bucketName w, getObjectKey w (length_w w + 1)) = None"
  shows "Append mem_client s w d =
     (Inr (length_w w + 1),
      filter (\<lambda>kv. fst kv \<noteq> (bucketName w, getObjectKey w (length_w w + 1))) s
        @ [((bucketName w, getObjectKey w (length_w w + 1)),
            put_uint64 (length_w w + 1) @ d @ Sum256 (put_uint64 (length_w w + 1) @ d))],
      w\<lparr>length_w := length_w w + 1\<rparr>)"
  using assms by (simp add: Append_def prepareBody_eq Let_def mem_put_fresh)

lemma of_nat_neq_minus_one: "j < 18446744073709551615 \<Longrightarrow> (of_nat j :: uint64) \<noteq> - 1"
proof
  assume j: "j < 18446744073709551615" and e: "(of_nat j :: uint64) = - 1"
  from j have "unat (of_nat j :: uint64) = j" by (simp add: unat_of_nat_64)
  with e have "j = unat (- 1 :: uint64)" by simp
  with j show False by (simp add: unsigned_minus_1_eq_mask mask_eq_exp_minus_1)
qed

lemma mem_Appends_succeed:
  assumes "\<forall>k. map_of s (bucketName w, getObjectKey w k) \<noteq> None \<longrightarrow> (\<exists>j<i. k = length_w w - of_nat j)"
    and "i + length ds < 18446744073709551616"
  shows "list_all (\<lambda>r. \<not> isl r) (fst (Appends mem_client s w ds))"
  using assms
proof (induction ds arbitrary: s w i)
  case Nil
  then show ?case by simp
next
  case (Cons d ds)
  let ?L = "length_w w + 1"
  let ?k = "(bucketName w, getObjectKey w ?L)"
  let ?s1 = "filter (\<lambda>kv. fst kv \<noteq> ?k) s
        @ [(?k, put_uint64 ?L @ d @ Sum256 (put_uint64 ?L @ d))]"
  let ?w1 = "w\<lparr>length_w := ?L\<rparr>"
  have fresh: "map_of s ?k = None"
  proof (rule ccontr)
    assume "map_of s ?k \<noteq> None"
    with Cons.prems(1) obtain j where j: "j < i" "?L = length_w w - of_nat j" by blast
    from j(2) have "(of_nat j :: uint64) = - 1" by (simp add: algebra_simps add_eq_0_iff)
    moreover from j(1) Cons.prems(2) have "j < 18446744073709551615" by simp
    ultimately show False using of_nat_neq_minus_one by blast
  qed
  from mem_Append_fresh [OF fresh] have a: "Append mem_client s w d = (Inr ?L, ?s1, ?w1)" .
  have inv: "\<forall>k. map_of ?s1 (bucketName ?w1, getObjectKey ?w1 k) \<noteq> None
      \<longrightarrow> (\<exists>j<Suc i. k = length_w ?w1 - of_nat j)"
  proof (intro allI impI)
    fix k assume p: "map_of ?s1 (bucketName ?w1, getObjectKey ?w1 k) \<noteq> None"
    show "\<exists>j<Suc i. k = length_w ?w1 - of_nat j"
    proof (cases "k = ?L")
      case True
      then have "k = length_w ?w1 - of_nat 0" by simp
      then show ?thesis by blast
    next
      case False
      then have "(bucketName w, getObjectKey w k) \<noteq> ?k" by (simp add: getObjectKey_inj)
      then have eq: "map_of ?s1 (bucketName w, getObjectKey w k) = map_of s (bucketName w, getObjectKey w k)"
        by (rule map_of_put_other)
      from p have "map_of ?s1 (bucketName w, getObjectKey w k) \<noteq> None"
        by (simp add: getObjectKey_cursor del: map_of_append)
      then have "map_of s (bucketName w, getObjectKey w k) \<noteq> None"
        unfolding eq .
      with Cons.prems(1) obtain j where j: "j < i" "k = length_w w - of_nat j" by blast
      from j(2) have "k = length_w ?w1 - of_nat (Suc j)" by simp
      with j(1) show ?thesis by blast
    qed
  qed
  from Cons.prems(2) have "Suc i + length ds < 18446744073709551616" by simp
  from Cons.IH [OF inv this] a show ?case
    by (auto split: prod.splits)
qed

lemma mem_Appends_fresh:
  assumes "\<forall>k. map_of s (bucket, getObjectKey (NewS3WAL bucket pfx) k) = None"
    and "length ds < 2 ^ 64"
  shows "fst (Appends mem_client s (NewS3WAL bucket pfx) ds) = map (\<lambda>i. Inr (of_nat i)) [1..<Suc (length ds)]"
proof -
  let ?W = "NewS3WAL bucket pfx"
  let ?R = "Appends mem_client s ?W ds"
  from assms have "list_all (\<lambda>r. \<not> isl r) (fst ?R)"
    using mem_Appends_succeed [of s ?W 0 ds] by (simp add: NewS3WAL_sel)
  moreover have "?R = (fst ?R, fst (snd ?R), snd (snd ?R))" by simp
  ultimately show ?thesis
    using Appends_offsets [of mem_client s ?W ds "fst ?R" "fst (snd ?R)" "snd (snd ?R)"]
    by (simp add: NewS3WAL_sel)
qed

text \<open>
  C4. On a fresh driver, whose cursor is 0, sequential calls of \<^verbatim>\<open>Append\<close> that all
  succeed return the offsets 1, 2, ..., N in this order (as 64-bit values; they are the
  numbers 1 to N for every N below \<open>2^64\<close>) and leave the cursor at N. Each successful
  \<^verbatim>\<open>Append\<close> returns \<open>length + 1\<close> and sets the cursor to it. On the in-memory store
  with no object in the namespace, fewer than \<open>2^64\<close> calls do all succeed, with these
  offsets.
\<close>

theorem append_monotonic:
  "(Appends c s (NewS3WAL bucket pfx) ds = (rs, s', w') \<and> list_all (\<lambda>r. \<not> isl r) rs
      \<longrightarrow> rs = map (\<lambda>i. Inr (of_nat i)) [1..<Suc (length ds)]
          \<and> length_w w' = of_nat (length ds)
          \<and> (length ds < 2 ^ 64 \<longrightarrow>
                map (\<lambda>r. case r of Inr k \<Rightarrow> unat k | Inl e \<Rightarrow> 0) rs = [1..<Suc (length ds)]))
   \<and> (Append c s w d = (Inr k, s1, w1) \<longrightarrow> k = length_w w + 1 \<and> w1 = w\<lparr>length_w := k\<rparr>)
   \<and> ((\<forall>k. map_of m (bucket, getObjectKey (NewS3WAL bucket pfx) k) = None) \<and> length ds < 2 ^ 64
        \<longrightarrow> fst (Appends mem_client m (NewS3WAL bucket pfx) ds)
              = map (\<lambda>i. Inr (of_nat i)) [1..<Suc (length ds)])"
proof (intro conjI impI)
  assume a: "Appends c s (NewS3WAL bucket pfx) ds = (rs, s', w') \<and> list_all (\<lambda>r. \<not> isl r) rs"
  from Appends_offsets [of c s "NewS3WAL bucket pfx" ds rs s' w'] a
  have rs: "rs = map (\<lambda>i. Inr (of_nat i)) [1..<Suc (length ds)]"
    and l: "length_w w' = of_nat (length ds)"
    by (simp_all add: NewS3WAL_def)
  show "rs = map (\<lambda>i. Inr (of_nat i)) [1..<Suc (length ds)]" by (fact rs)
  show "length_w w' = of_nat (length ds)" by (fact l)
  assume n: "length ds < 2 ^ 64"
  have "map (\<lambda>r. case r of Inr k \<Rightarrow> unat k | Inl e \<Rightarrow> 0) rs
      = map (\<lambda>i. unat (of_nat i :: uint64)) [1..<Suc (length ds)]"
    unfolding rs by (simp add: comp_def del: upt_Suc)
  also have "\<dots> = map (\<lambda>i. i) [1..<Suc (length ds)]"
  proof (rule map_cong [OF refl])
    fix i assume "i \<in> set [1..<Suc (length ds)]"
    with n have "i < 18446744073709551616" by auto
    then show "unat (of_nat i :: uint64) = i" by (rule unat_of_nat_64)
  qed
  finally show "map (\<lambda>r. case r of Inr k \<Rightarrow> unat k | Inl e \<Rightarrow> 0) rs = [1..<Suc (length ds)]"
    by simp
next
  assume "Append c s w d = (Inr k, s1, w1)"
  from Append_success [OF this] show "k = length_w w + 1" "w1 = w\<lparr>length_w := k\<rparr>" by simp_all
next
  assume "(\<forall>k. map_of m (bucket, getObjectKey (NewS3WAL bucket pfx) k) = None) \<and> length ds < 2 ^ 64"
  then show "fst (Appends mem_client m (NewS3WAL bucket pfx) ds)
      = map (\<lambda>i. Inr (of_nat i)) [1..<Suc (length ds)]"
    using mem_Appends_fresh [of m bucket pfx ds] by blast
qed

theorem append_monotonic_witness:
  "list_all (\<lambda>r. \<not> isl r) (fst (Appends mem_client [] (NewS3WAL ''b'' ''p'') [[1], [], [2, 3]]))
   \<and> fst (Appends mem_client [] (NewS3WAL ''b'' ''p'') [[1], [], [2, 3]]) = [Inr 1, Inr 2, Inr 3]
   \<and> length_w (snd (snd (Appends mem_client [] (NewS3WAL ''b'' ''p'') [[1], [], [2, 3]]))) = 3
   \<and> fst (Append mem_client [] (NewS3WAL ''b'' ''p'') [1]) = Inr 1
   \<and> length_w (snd (snd (Append mem_client [] (NewS3WAL ''b'' ''p'') [1]))) = 1"
proof -
  let ?W = "NewS3WAL ''b'' ''p''"
  let ?R = "Appends mem_client [] ?W [[1], [], [2, 3]]"
  let ?A = "Append mem_client [] ?W [1]"
  have run: "fst ?R = [Inr 1, Inr 2, Inr 3]"
    by (simp add: Append_def prepareBody_eq Let_def NewS3WAL_def mem_put_fresh getObjectKey_def
        Sprintf_020d_inj)
  then have ok: "list_all (\<lambda>r. \<not> isl r) (fst ?R)" by simp
  have "?R = (fst ?R, fst (snd ?R), snd (snd ?R))" by simp
  with ok append_monotonic [of mem_client "[]" "''b''" "''p''" "[[1], [], [2, 3]]" "fst ?R" "fst (snd ?R)" "snd (snd ?R)"]
  have 2: "length_w (snd (snd ?R)) = 3"
    by simp
  have a: "fst ?A = Inr 1"
    by (simp add: Append_def prepareBody_eq Let_def NewS3WAL_def mem_put_fresh)
  then have "?A = (Inr 1, fst (snd ?A), snd (snd ?A))" by (metis prod.collapse)
  with append_monotonic [where c = mem_client and s = "[]" and w = ?W and d = "[1]" and k = 1
      and ?s1.0 = "fst (snd ?A)" and ?w1.0 = "snd (snd ?A)"]
  have 3: "snd (snd ?A) = ?W\<lparr>length_w := 1\<rparr>" by simp
  from ok run 2 a 3 show ?thesis by simp
qed

section \<open>LastRecord\<close>

lemma scan_keys_append:
  "scan_keys w m (ks @ ks') =
     (case scan_keys w m ks of
        Panic \<Rightarrow> Panic
      | Return (Inl e) \<Rightarrow> Return (Inl e)
      | Return (Inr m') \<Rightarrow> scan_keys w m' ks')"
  by (induction ks arbitrary: m) (simp_all split: outcome.splits sum.splits)

lemma scan_pages_all: "scan_pages w m (map Inr ps) = scan_keys w m (concat ps)"
proof (induction ps arbitrary: m)
  case Nil
  then show ?case by simp
next
  case (Cons p ps)
  then show ?case
    by (simp add: scan_keys_append split: outcome.splits sum.splits)
qed

lemma scan_keys_max:
  "map (getOffsetFromKey w) ks = map (\<lambda>offset. Return (Inr offset)) offsets \<Longrightarrow>
   scan_keys w m ks = Return (Inr (foldl max m offsets))"
proof (induction ks arbitrary: m offsets)
  case Nil
  then show ?case by simp
next
  case (Cons k ks)
  then obtain x xs where o: "offsets = x # xs" by (cases offsets) auto
  with Cons.prems have k: "getOffsetFromKey w k = Return (Inr x)"
    and r: "map (getOffsetFromKey w) ks = map (\<lambda>offset. Return (Inr offset)) xs" by simp_all
  have "(if m < x then x else m) = max m x" by (auto simp add: max_def)
  with Cons.IH [OF r] k o show ?case by simp
qed

lemma scan_keys_error:
  assumes "\<forall>k\<in>set ks. length (prefix w) < length k"
    and "\<exists>k\<in>set ks. \<exists>e. getOffsetFromKey w k = Return (Inl e)"
  shows "\<exists>e. scan_keys w m ks = Return (Inl (FailedParseKey e))"
  using assms
proof (induction ks arbitrary: m)
  case Nil
  then show ?case by simp
next
  case (Cons k ks)
  from Cons.prems(1) have "getOffsetFromKey w k \<noteq> Panic"
    by (simp add: getOffsetFromKey_def)
  then obtain r where r: "getOffsetFromKey w k = Return r" by (cases "getOffsetFromKey w k") auto
  show ?case
  proof (cases r)
    case (Inl e)
    with r show ?thesis by simp
  next
    case (Inr x)
    with r Cons.prems(2) have "\<exists>k\<in>set ks. \<exists>e. getOffsetFromKey w k = Return (Inl e)" by auto
    moreover from Cons.prems(1) have "\<forall>k\<in>set ks. length (prefix w) < length k" by simp
    ultimately show ?thesis using Cons.IH r Inr by simp
  qed
qed

lemma scan_keys_zero:
  "\<forall>k\<in>set ks. getOffsetFromKey w k = Return (Inr 0) \<Longrightarrow> scan_keys w m ks = Return (Inr m)"
  by (induction ks arbitrary: m) simp_all

lemma Append_failure:
  assumes "fst (Append c s w d) = Inl e"
  shows "snd (snd (Append c s w d)) = w"
  using Append_cases [of c s w d] assms by auto

lemma Read_cursor: "snd (Read c s w offset) = w"
  by (simp add: Read_def split: sum.splits body.splits prod.splits outcome.splits)

lemma Read_results:
  "(\<exists>r. fst (Read c s w offset) = Return (Inr r))
   \<or> (\<exists>e. fst (Read c s w offset) = Return (Inl (FailedGet e)))
   \<or> fst (Read c s w offset) = Return (Inl FailedReadBody)
   \<or> fst (Read c s w offset) = Return (Inl DataTooShort)
   \<or> (\<exists>e. fst (Read c s w offset) = Return (Inl (OffsetMismatch e)))
   \<or> fst (Read c s w offset) = Return (Inl ChecksumMismatch)"
proof (cases "GetObject c s \<lparr>GetBucket = bucketName w, GetKey = getObjectKey w offset\<rparr>")
  case (Inl e)
  then show ?thesis by (simp add: Read_def)
next
  case (Inr b)
  show ?thesis
  proof (cases b)
    case BodyBroken
    with Inr show ?thesis by (simp add: Read_def)
  next
    case (BodyBytes data)
    with Inr have "GetObject c s \<lparr>GetBucket = bucketName w, GetKey = getObjectKey w offset\<rparr>
        = Inr (BodyBytes data)" by simp
    from Read_body [OF this] show ?thesis by simp
  qed
qed

lemma LastRecord_cases:
  "(scan_pages w 0 (ListObjectsV2Pages c s \<lparr>ListBucket = bucketName w, ListPrefix = None\<rparr>) = Panic
      \<and> LastRecord c s w = (Panic, w))
   \<or> (\<exists>e. scan_pages w 0 (ListObjectsV2Pages c s \<lparr>ListBucket = bucketName w, ListPrefix = None\<rparr>)
           = Return (Inl e) \<and> LastRecord c s w = (Return (Inl e), w))
   \<or> (scan_pages w 0 (ListObjectsV2Pages c s \<lparr>ListBucket = bucketName w, ListPrefix = None\<rparr>)
           = Return (Inr 0) \<and> LastRecord c s w = (Return (Inl WALEmpty), w))
   \<or> (\<exists>m. m \<noteq> 0 \<and> scan_pages w 0 (ListObjectsV2Pages c s \<lparr>ListBucket = bucketName w, ListPrefix = None\<rparr>)
           = Return (Inr m)
         \<and> LastRecord c s w = (fst (Read c s (w\<lparr>length_w := m\<rparr>) m), w\<lparr>length_w := m\<rparr>))"
proof (cases "scan_pages w 0 (ListObjectsV2Pages c s \<lparr>ListBucket = bucketName w, ListPrefix = None\<rparr>)")
  case Panic
  then show ?thesis by (simp add: LastRecord_def)
next
  case (Return r)
  show ?thesis
  proof (cases r)
    case (Inl e)
    with Return show ?thesis by (simp add: LastRecord_def)
  next
    case (Inr m)
    have "Read c s (w\<lparr>length_w := m\<rparr>) m = (fst (Read c s (w\<lparr>length_w := m\<rparr>) m), w\<lparr>length_w := m\<rparr>)"
      using Read_cursor [of c s "w\<lparr>length_w := m\<rparr>" m] by (metis prod.collapse)
    with Return Inr show ?thesis by (cases "m = 0") (simp_all add: LastRecord_def)
  qed
qed

text \<open>
  When every page of the listing arrives, the scan runs over the keys of all pages. If
  moreover every key is longer than the prefix, so that no decoding panics, a key that
  fails to parse makes \<^verbatim>\<open>LastRecord\<close> return the error of the key format, and keys that
  all decode to 0, or no keys, make it return the error of the empty log, the cursor
  unchanged in both cases. When all keys decode and some offset is not 0,
  \<^verbatim>\<open>LastRecord\<close> is the \<^verbatim>\<open>Read\<close> of the maximum, with the cursor set to it.
\<close>

lemma LastRecord_error_contract:
  assumes "ListObjectsV2Pages c s \<lparr>ListBucket = bucketName w, ListPrefix = None\<rparr> = map Inr ps"
  shows "(\<forall>k\<in>set (concat ps). length (prefix w) < length k) \<Longrightarrow>
         (\<exists>k\<in>set (concat ps). \<exists>e. getOffsetFromKey w k = Return (Inl e)) \<Longrightarrow>
         \<exists>e. LastRecord c s w = (Return (Inl (FailedParseKey e)), w)"
    and "(\<forall>k\<in>set (concat ps). getOffsetFromKey w k = Return (Inr 0)) \<Longrightarrow>
         LastRecord c s w = (Return (Inl WALEmpty), w)"
proof -
  assume "\<forall>k\<in>set (concat ps). length (prefix w) < length k"
    and "\<exists>k\<in>set (concat ps). \<exists>e. getOffsetFromKey w k = Return (Inl e)"
  from scan_keys_error [OF this, of 0] obtain e
    where "scan_keys w 0 (concat ps) = Return (Inl (FailedParseKey e))" by blast
  then have "LastRecord c s w = (Return (Inl (FailedParseKey e)), w)"
    by (simp add: LastRecord_def assms scan_pages_all)
  then show "\<exists>e. LastRecord c s w = (Return (Inl (FailedParseKey e)), w)" by blast
next
  assume "\<forall>k\<in>set (concat ps). getOffsetFromKey w k = Return (Inr 0)"
  from scan_keys_zero [OF this, of 0] show "LastRecord c s w = (Return (Inl WALEmpty), w)"
    by (simp add: LastRecord_def assms scan_pages_all)
qed

lemma LastRecord_max:
  assumes "ListObjectsV2Pages c s \<lparr>ListBucket = bucketName w, ListPrefix = None\<rparr> = map Inr ps"
    and "map (getOffsetFromKey w) (concat ps) = map (\<lambda>offset. Return (Inr offset)) offsets"
    and "foldl max 0 offsets \<noteq> 0"
  shows "LastRecord c s w =
     Read c s (w\<lparr>length_w := foldl max 0 offsets\<rparr>) (foldl max 0 offsets)"
  using assms(3) by (simp add: LastRecord_def assms(1) scan_pages_all scan_keys_max [OF assms(2)])

lemma mem_pages_one:
  "ListObjectsV2Pages mem_client [((b, k), body)] \<lparr>ListBucket = b, ListPrefix = None\<rparr> = [Inr [k]]"
  by (simp add: mem_client_def mem_ListObjectsV2Pages_def mem_keys_def chunks.simps)

lemma mem_pages_two:
  "ListObjectsV2Pages mem_client [((b, k), body), ((b, k'), body')] \<lparr>ListBucket = b, ListPrefix = None\<rparr>
     = [Inr [k, k']]"
  by (simp add: mem_client_def mem_ListObjectsV2Pages_def mem_keys_def chunks.simps)

lemma mem_pages_empty:
  "ListObjectsV2Pages mem_client [] \<lparr>ListBucket = b, ListPrefix = None\<rparr> = [Inr []]"
  by (simp add: mem_client_def mem_ListObjectsV2Pages_def mem_keys_def chunks.simps)

lemma key7: "getObjectKey (NewS3WAL ''b'' ''p'') 7 = ''p/00000000000000000007''"
  by code_simp

lemma offset_p7: "getOffsetFromKey (NewS3WAL ''b'' ''p'') ''p/00000000000000000007'' = Return (Inr 7)"
  by code_simp

lemma LastRecord_short_body:
  "LastRecord mem_client [((''b'', ''p/00000000000000000007''), [])] (NewS3WAL ''b'' ''p'')
     = (Return (Inl DataTooShort), (NewS3WAL ''b'' ''p'')\<lparr>length_w := 7\<rparr>)"
  by (simp add: LastRecord_def NewS3WAL_sel mem_pages_one offset_p7 Read_def getObjectKey_cursor key7)
     (simp add: mem_client_def mem_GetObject_def)

lemma Append_exists:
  "Append mem_client [((''b'', ''p/00000000000000000001''), [])] (NewS3WAL ''b'' ''p'') [1]
     = (Inl (FailedPut PreconditionFailed), [((''b'', ''p/00000000000000000001''), [])], NewS3WAL ''b'' ''p'')"
  by (simp add: Append_def NewS3WAL_sel prepareBody_eq Let_def key1)
     (simp add: mem_client_def mem_PutObject_def)

lemma LastRecord_empty:
  "LastRecord mem_client [] (NewS3WAL ''b'' ''p'') = (Return (Inl WALEmpty), NewS3WAL ''b'' ''p'')"
  by (simp add: LastRecord_def NewS3WAL_sel mem_pages_empty)

text \<open>
  C2 as stated fails for \<^verbatim>\<open>LastRecord\<close>: on a bucket whose only object has the key of
  offset 7 and an empty body, it returns the error "data too short" and has moved the
  cursor from 0 to 7.
\<close>

theorem LastRecord_error_moves_cursor:
  "fst (LastRecord mem_client [((''b'', ''p/00000000000000000007''), [])] (NewS3WAL ''b'' ''p''))
     = Return (Inl DataTooShort)
   \<and> length_w (snd (LastRecord mem_client [((''b'', ''p/00000000000000000007''), [])] (NewS3WAL ''b'' ''p'')))
     \<noteq> length_w (NewS3WAL ''b'' ''p'')"
  by (simp add: LastRecord_short_body NewS3WAL_sel)

text \<open>
  C2, amended. A failed \<^verbatim>\<open>Append\<close> leaves the driver, and with it the cursor, unchanged;
  \<^verbatim>\<open>Read\<close> never changes it; a \<^verbatim>\<open>LastRecord\<close> that fails while listing, while
  decoding a key or on an empty log leaves it unchanged. Once the scan has found a maximum
  offset other than 0, \<^verbatim>\<open>LastRecord\<close> sets the cursor to it before it calls
  \<^verbatim>\<open>Read\<close>, and returns what \<^verbatim>\<open>Read\<close> returns: whenever the scan ends with such
  a maximum the cursor is that maximum afterwards, also when this \<^verbatim>\<open>Read\<close> fails, and
  the cursor is changed in that case only.
\<close>

theorem cursor_advance:
  "(\<forall>e. fst (Append c s w d) = Inl e \<longrightarrow> snd (snd (Append c s w d)) = w)
   \<and> snd (Read c s w offset) = w
   \<and> ((\<exists>e. fst (LastRecord c s w) = Return (Inl (FailedList e)))
        \<or> (\<exists>e. fst (LastRecord c s w) = Return (Inl (FailedParseKey e)))
        \<or> fst (LastRecord c s w) = Return (Inl WALEmpty)
       \<longrightarrow> snd (LastRecord c s w) = w)
   \<and> (snd (LastRecord c s w) \<noteq> w \<longrightarrow>
        (\<exists>m. m \<noteq> 0
           \<and> scan_pages w 0 (ListObjectsV2Pages c s \<lparr>ListBucket = bucketName w, ListPrefix = None\<rparr>)
               = Return (Inr m)
           \<and> LastRecord c s w = (fst (Read c s (w\<lparr>length_w := m\<rparr>) m), w\<lparr>length_w := m\<rparr>)))
   \<and> (\<forall>m. m \<noteq> 0
          \<and> scan_pages w 0 (ListObjectsV2Pages c s \<lparr>ListBucket = bucketName w, ListPrefix = None\<rparr>)
              = Return (Inr m)
        \<longrightarrow> LastRecord c s w = (fst (Read c s (w\<lparr>length_w := m\<rparr>) m), w\<lparr>length_w := m\<rparr>)
            \<and> snd (LastRecord c s w) = w\<lparr>length_w := m\<rparr>
            \<and> length_w (snd (LastRecord c s w)) = m)"
proof (intro conjI allI impI)
  fix e assume "fst (Append c s w d) = Inl e"
  then show "snd (snd (Append c s w d)) = w" by (rule Append_failure)
next
  show "snd (Read c s w offset) = w" by (rule Read_cursor)
next
  assume a: "(\<exists>e. fst (LastRecord c s w) = Return (Inl (FailedList e)))
        \<or> (\<exists>e. fst (LastRecord c s w) = Return (Inl (FailedParseKey e)))
        \<or> fst (LastRecord c s w) = Return (Inl WALEmpty)"
  from LastRecord_cases [of w c s] show "snd (LastRecord c s w) = w"
  proof (elim disjE exE conjE)
    fix m assume "LastRecord c s w = (fst (Read c s (w\<lparr>length_w := m\<rparr>) m), w\<lparr>length_w := m\<rparr>)"
    then have "fst (LastRecord c s w) = fst (Read c s (w\<lparr>length_w := m\<rparr>) m)" by simp
    with a Read_results [of c s "w\<lparr>length_w := m\<rparr>" m] have False by auto
    then show ?thesis ..
  qed simp_all
next
  assume "snd (LastRecord c s w) \<noteq> w"
  with LastRecord_cases [of w c s]
  show "\<exists>m. m \<noteq> 0
           \<and> scan_pages w 0 (ListObjectsV2Pages c s \<lparr>ListBucket = bucketName w, ListPrefix = None\<rparr>)
               = Return (Inr m)
           \<and> LastRecord c s w = (fst (Read c s (w\<lparr>length_w := m\<rparr>) m), w\<lparr>length_w := m\<rparr>)"
    by auto
next
  fix m
  assume "m \<noteq> 0
      \<and> scan_pages w 0 (ListObjectsV2Pages c s \<lparr>ListBucket = bucketName w, ListPrefix = None\<rparr>)
          = Return (Inr m)"
  with LastRecord_cases [of w c s]
  have l: "LastRecord c s w = (fst (Read c s (w\<lparr>length_w := m\<rparr>) m), w\<lparr>length_w := m\<rparr>)"
    by auto
  show "LastRecord c s w = (fst (Read c s (w\<lparr>length_w := m\<rparr>) m), w\<lparr>length_w := m\<rparr>)"
    by (fact l)
  show "snd (LastRecord c s w) = w\<lparr>length_w := m\<rparr>"
    by (simp add: l)
  show "length_w (snd (LastRecord c s w)) = m"
    by (simp add: l)
qed

theorem cursor_advance_witness:
  "fst (Append mem_client [((''b'', ''p/00000000000000000001''), [])] (NewS3WAL ''b'' ''p'') [1])
     = Inl (FailedPut PreconditionFailed)
   \<and> snd (snd (Append mem_client [((''b'', ''p/00000000000000000001''), [])] (NewS3WAL ''b'' ''p'') [1]))
     = NewS3WAL ''b'' ''p''
   \<and> fst (LastRecord mem_client [] (NewS3WAL ''b'' ''p'')) = Return (Inl WALEmpty)
   \<and> snd (LastRecord mem_client [] (NewS3WAL ''b'' ''p'')) = NewS3WAL ''b'' ''p''
   \<and> snd (LastRecord mem_client [((''b'', ''p/00000000000000000007''), [])] (NewS3WAL ''b'' ''p''))
     \<noteq> NewS3WAL ''b'' ''p''
   \<and> LastRecord mem_client [((''b'', ''p/00000000000000000007''), [])] (NewS3WAL ''b'' ''p'')
     = (fst (Read mem_client [((''b'', ''p/00000000000000000007''), [])] ((NewS3WAL ''b'' ''p'')\<lparr>length_w := 7\<rparr>) 7),
        (NewS3WAL ''b'' ''p'')\<lparr>length_w := 7\<rparr>)
   \<and> scan_pages (NewS3WAL ''b'' ''p'') 0
        (ListObjectsV2Pages mem_client [((''b'', ''p/00000000000000000007''), [])]
           \<lparr>ListBucket = bucketName (NewS3WAL ''b'' ''p''), ListPrefix = None\<rparr>) = Return (Inr 7)
   \<and> length_w (snd (LastRecord mem_client [((''b'', ''p/00000000000000000007''), [])] (NewS3WAL ''b'' ''p''))) = 7"
proof -
  let ?W = "NewS3WAL ''b'' ''p''"
  let ?S1 = "[((''b'', ''p/00000000000000000001''), [])]"
  let ?S7 = "[((''b'', ''p/00000000000000000007''), [])]"
  have a: "fst (Append mem_client ?S1 ?W [1]) = Inl (FailedPut PreconditionFailed)"
    by (simp add: Append_exists)
  with cursor_advance [of mem_client ?S1 ?W "[1]" 0]
  have 1: "snd (snd (Append mem_client ?S1 ?W [1])) = ?W" by blast
  have e: "fst (LastRecord mem_client [] ?W) = Return (Inl WALEmpty)"
    by (simp add: LastRecord_empty)
  with cursor_advance [of mem_client "[]" ?W "[]" 0]
  have 2: "snd (LastRecord mem_client [] ?W) = ?W" by blast
  have n: "snd (LastRecord mem_client ?S7 ?W) \<noteq> ?W"
    by (simp add: LastRecord_short_body) (simp add: NewS3WAL_def)
  have sp: "scan_pages ?W 0 (ListObjectsV2Pages mem_client ?S7 \<lparr>ListBucket = bucketName ?W, ListPrefix = None\<rparr>)
      = Return (Inr 7)"
    by (simp add: NewS3WAL_sel mem_pages_one offset_p7)
  from n cursor_advance [of mem_client ?S7 ?W "[]" 0]
  obtain m where "scan_pages ?W 0 (ListObjectsV2Pages mem_client ?S7 \<lparr>ListBucket = bucketName ?W, ListPrefix = None\<rparr>)
        = Return (Inr m)"
    and "LastRecord mem_client ?S7 ?W = (fst (Read mem_client ?S7 (?W\<lparr>length_w := m\<rparr>) m), ?W\<lparr>length_w := m\<rparr>)"
    by blast
  with sp have 3: "LastRecord mem_client ?S7 ?W = (fst (Read mem_client ?S7 (?W\<lparr>length_w := 7\<rparr>) 7), ?W\<lparr>length_w := 7\<rparr>)"
    by simp
  have "(7 :: uint64) \<noteq> 0" by simp
  with sp cursor_advance [of mem_client ?S7 ?W "[]" 0, THEN conjunct2, THEN conjunct2,
      THEN conjunct2, THEN conjunct2, rule_format, of 7]
  have 4: "length_w (snd (LastRecord mem_client ?S7 ?W)) = 7" by simp
  from a 1 e 2 n 3 sp 4 show ?thesis by blast
qed

lemma offset_wal_q: "getOffsetFromKey (NewS3WAL ''b'' ''wal'') ''q'' = Panic"
  by code_simp

text \<open>
  C8 at a listing with a key shorter than the prefix: the bucket holds an object with the key
  \<open>q\<close>, the driver has the prefix \<open>wal\<close>. The key does not decode to an offset, and
  \<^verbatim>\<open>LastRecord\<close> panics where the claim has it return the error of the key format.
\<close>

theorem LastRecord_short_key_panics:
  "LastRecord mem_client [((''b'', ''q''), [])] (NewS3WAL ''b'' ''wal'') = (Panic, NewS3WAL ''b'' ''wal'')"
  by (simp add: LastRecord_def NewS3WAL_sel mem_pages_one offset_wal_q)

lemma key_a1: "getObjectKey (NewS3WAL ''b'' ''a'') 1 = ''a/00000000000000000001''"
  by code_simp

lemma key_a7: "getObjectKey (NewS3WAL ''b'' ''a'') 7 = ''a/00000000000000000007''"
  by code_simp

lemma offset_a1: "getOffsetFromKey (NewS3WAL ''b'' ''a'') ''a/00000000000000000001'' = Return (Inr 1)"
  by code_simp

lemma offset_c7: "getOffsetFromKey (NewS3WAL ''b'' ''a'') ''c/00000000000000000007'' = Return (Inr 7)"
  by code_simp

text \<open>
  C1 at a bucket shared with another namespace: with the record of offset 1 under the
  driver's prefix \<open>a\<close> alone, \<^verbatim>\<open>LastRecord\<close> returns that record; with one more object
  under the prefix \<open>c\<close>, outside the namespace, it takes 7 for the maximum offset, sets the
  cursor to 7 and fails to get the object of offset 7. The listing carries no prefix, so the
  key outside the namespace decides the result.
\<close>

theorem LastRecord_foreign_key:
  "LastRecord mem_client
      [((''b'', ''a/00000000000000000001''), put_uint64 1 @ [1, 2, 3] @ Sum256 (put_uint64 1 @ [1, 2, 3]))]
      (NewS3WAL ''b'' ''a'')
     = (Return (Inr \<lparr>Offset = 1, Data = [1, 2, 3]\<rparr>), (NewS3WAL ''b'' ''a'')\<lparr>length_w := 1\<rparr>)
   \<and> LastRecord mem_client
      [((''b'', ''a/00000000000000000001''), put_uint64 1 @ [1, 2, 3] @ Sum256 (put_uint64 1 @ [1, 2, 3])),
       ((''b'', ''c/00000000000000000007''), [])]
      (NewS3WAL ''b'' ''a'')
     = (Return (Inl (FailedGet NoSuchKey)), (NewS3WAL ''b'' ''a'')\<lparr>length_w := 7\<rparr>)"
proof -
  let ?W = "NewS3WAL ''b'' ''a''"
  let ?B = "put_uint64 1 @ [1, 2, 3] @ Sum256 (put_uint64 1 @ [1, 2, 3])"
  let ?S = "[((''b'', ''a/00000000000000000001''), ?B)]"
  let ?S' = "[((''b'', ''a/00000000000000000001''), ?B), ((''b'', ''c/00000000000000000007''), [])]"
  have g: "GetObject mem_client ?S \<lparr>GetBucket = bucketName (?W\<lparr>length_w := 1\<rparr>),
             GetKey = getObjectKey (?W\<lparr>length_w := 1\<rparr>) 1\<rparr> = Inr (BodyBytes ?B)"
    by (simp add: NewS3WAL_sel getObjectKey_cursor key_a1) (simp add: mem_client_def mem_GetObject_def)
  have r: "Read mem_client ?S (?W\<lparr>length_w := 1\<rparr>) 1
      = (Return (Inr \<lparr>Offset = 1, Data = [1, 2, 3]\<rparr>), ?W\<lparr>length_w := 1\<rparr>)"
    by (rule Read_prepared [OF g])
  have 1: "LastRecord mem_client ?S ?W = (Return (Inr \<lparr>Offset = 1, Data = [1, 2, 3]\<rparr>), ?W\<lparr>length_w := 1\<rparr>)"
    using r by (simp add: LastRecord_def NewS3WAL_sel mem_pages_one offset_a1)
  have g': "GetObject mem_client ?S' \<lparr>GetBucket = bucketName (?W\<lparr>length_w := 7\<rparr>),
             GetKey = getObjectKey (?W\<lparr>length_w := 7\<rparr>) 7\<rparr> = Inl NoSuchKey"
    by (simp add: NewS3WAL_sel getObjectKey_cursor key_a7) (simp add: mem_client_def mem_GetObject_def)
  have r': "Read mem_client ?S' (?W\<lparr>length_w := 7\<rparr>) 7
      = (Return (Inl (FailedGet NoSuchKey)), ?W\<lparr>length_w := 7\<rparr>)"
    by (simp only: Read_def g' sum.case)
  have 2: "LastRecord mem_client ?S' ?W = (Return (Inl (FailedGet NoSuchKey)), ?W\<lparr>length_w := 7\<rparr>)"
    using r' by (simp add: LastRecord_def NewS3WAL_sel mem_pages_two offset_a1 offset_c7)
  from 1 2 show ?thesis by simp
qed

end
